theory Spec2Isabelle
  imports Complex_Main "HOL-Library.Sublist"
begin

section \<open>WanderGenie: the API client (services/api.ts)\<close>

text \<open>
  JavaScript values are modelled as follows. Strings are \<open>string\<close>. A number that the
  code only counts with or adds (attempt counters, milliseconds, minutes) is a \<open>nat\<close> or
  an \<open>int\<close>. An optional field (\<open>errors?: string[]\<close>) or a field that may be
  \<open>null\<close> is an \<open>option\<close>. A thrown exception is the left summand of a sum type.
\<close>

subsection \<open>Errors and HTTP responses\<close>

text \<open>
  Every exception of the client is an \<open>Error\<close> object: the ones the client
  throws itself with \<open>new Error(msg)\<close>, the \<open>TypeError\<close> with which \<open>fetch\<close> rejects
  when no response arrives, and the \<open>SyntaxError\<close> with which \<open>response.json()\<close>
  rejects on a body that is not JSON.
\<close>

datatype error = Error string | TypeError string | SyntaxError string

fun message :: "error \<Rightarrow> string" where
  "message (Error m) = m"
| "message (TypeError m) = m"
| "message (SyntaxError m) = m"

record 'a response =
  http_status :: nat
  statusText :: string
  json :: "string + 'a"

text \<open>\<open>response.ok\<close> is true exactly for the status codes 200 to 299.\<close>

definition ok :: "'a response \<Rightarrow> bool" where
  "ok r = (200 \<le> http_status r \<and> http_status r \<le> 299)"

datatype 'a fetch_result = Rejected string | Resolved "'a response"

text \<open>\<open>return response.json()\<close>\<close>

definition response_json :: "'a response \<Rightarrow> error + 'a" where
  "response_json r = (case json r of Inl m \<Rightarrow> Inl (SyntaxError m) | Inr v \<Rightarrow> Inr v)"

subsection \<open>The trip as the server sends it\<close>

record POI =
  name :: string
  lat :: real
  lon :: real
  tags :: "string list"
  duration_min :: int
  booking_required :: bool
  booking_url :: "string option"
  poi_notes :: "string option"
  open_hours :: "string option"

record TimeBlock =
  start_time :: string
  end_time :: string
  poi :: POI
  travel_from_previous :: int

record FrontendActivity =
  a_time :: string
  a_name :: string
  a_type :: string
  a_lat :: real
  a_lon :: real
  a_duration_min :: int
  a_booking_required :: "bool option"
  a_booking_url :: "string option"
  a_notes :: "string option"

text \<open>
  A day of the server has \<open>blocks\<close>; the response to an edit has \<open>activities\<close>
  instead (\<open>convertDay\<close> handles both), so either field may be missing.
\<close>

record Day =
  date :: string
  blocks :: "TimeBlock list option"
  activities :: "FrontendActivity list option"

record BookingLinks =
  flights :: string
  hotels :: string

text \<open>
  \<open>status\<close> is declared \<open>'processing' | 'completed' | 'failed'\<close>, but it is whatever
  string the JSON carries, and the code compares it as a string. \<open>days\<close> is \<open>None\<close>
  when the JSON value is not an array.
\<close>

record TripResponse =
  trip_id :: string
  status :: string
  city :: string
  origin :: string
  start_date :: string
  end_date :: string
  days :: "Day list option"
  booking_links :: BookingLinks
  errors :: "string list option"

record CreateTripResponse =
  c_trip_id :: string
  c_status :: string

subsection \<open>createTrip, getTrip, editTrip\<close>

definition createTrip :: "CreateTripResponse fetch_result \<Rightarrow> error + CreateTripResponse" where
  "createTrip fr =
     (case fr of
        Rejected m \<Rightarrow> Inl (TypeError m)
      | Resolved r \<Rightarrow>
          if \<not> ok r then Inl (Error (''Failed to create trip: '' @ statusText r))
          else response_json r)"

definition getTrip :: "TripResponse fetch_result \<Rightarrow> error + TripResponse" where
  "getTrip fr =
     (case fr of
        Rejected m \<Rightarrow> Inl (TypeError m)
      | Resolved r \<Rightarrow>
          if \<not> ok r then
            (if http_status r = 404 then Inl (Error ''Trip not found'')
             else Inl (Error (''Failed to get trip: '' @ statusText r)))
          else response_json r)"

definition editTrip :: "TripResponse fetch_result \<Rightarrow> error + TripResponse" where
  "editTrip fr =
     (case fr of
        Rejected m \<Rightarrow> Inl (TypeError m)
      | Resolved r \<Rightarrow>
          if \<not> ok r then
            (if http_status r = 404 then Inl (Error ''Trip not found'')
             else if http_status r = 409 then
               Inl (Error ''Trip is still being generated. Please wait.'')
             else Inl (Error (''Failed to edit trip: '' @ statusText r)))
          else response_json r)"

subsection \<open>pollTripUntilComplete\<close>

text \<open>\<open>xs.join(', ')\<close>\<close>

fun join :: "string \<Rightarrow> string list \<Rightarrow> string" where
  "join sep [] = []"
| "join sep [x] = x"
| "join sep (x # y # ys) = x @ sep @ join sep (y # ys)"

text \<open>
  \<open>trip.errors?.join(', ') || 'Trip generation failed'\<close>: the default stands in when
  \<open>errors\<close> is missing and when the joined text is the empty string.
\<close>

definition failureMessage :: "TripResponse \<Rightarrow> string" where
  "failureMessage trip =
     (case errors trip of
        None \<Rightarrow> ''Trip generation failed''
      | Some es \<Rightarrow> if join '', '' es = [] then ''Trip generation failed'' else join '', '' es)"

text \<open>
  What the loop has done so far: the number of \<open>getTrip\<close> calls issued and the
  milliseconds spent in \<open>setTimeout\<close>.
\<close>

record poll_log =
  getTrip_calls :: nat
  waited_ms :: nat

definition no_log :: poll_log where
  "no_log = \<lparr>getTrip_calls = 0, waited_ms = 0\<rparr>"

text \<open>\<open>onProgress?.(trip.status)\<close>: the callback, when given, acts on the caller's state.\<close>

definition notify :: "(string \<Rightarrow> 's \<Rightarrow> 's) option \<Rightarrow> string \<Rightarrow> 's \<Rightarrow> 's" where
  "notify onProgress st s = (case onProgress of None \<Rightarrow> s | Some f \<Rightarrow> f st s)"

text \<open>
  The \<open>for\<close> loop from \<open>attempt\<close> on. \<open>server k\<close> is what the \<open>k\<close>-th \<open>fetch\<close> of
  the trip resolves to. The result is the outcome (the trip returned or the error thrown),
  the caller's state after the callbacks, and the log.
\<close>

function pollLoop ::
  "(nat \<Rightarrow> TripResponse fetch_result) \<Rightarrow> (string \<Rightarrow> 's \<Rightarrow> 's) option \<Rightarrow> nat \<Rightarrow> nat \<Rightarrow>
   nat \<Rightarrow> 's \<Rightarrow> poll_log \<Rightarrow> (error + TripResponse) \<times> 's \<times> poll_log" where
  "pollLoop server onProgress maxAttempts intervalMs attempt s lg =
     (if attempt < maxAttempts then
        (case getTrip (server attempt) of
           Inl e \<Rightarrow> (Inl e, s, lg\<lparr>getTrip_calls := getTrip_calls lg + 1\<rparr>)
         | Inr trip \<Rightarrow>
             let lg1 = lg\<lparr>getTrip_calls := getTrip_calls lg + 1\<rparr>;
                 s1 = notify onProgress (status trip) s
             in if status trip = ''completed'' then (Inr trip, s1, lg1)
                else if status trip = ''failed'' then (Inl (Error (failureMessage trip)), s1, lg1)
                else pollLoop server onProgress maxAttempts intervalMs (Suc attempt) s1
                       (lg1\<lparr>waited_ms := waited_ms lg1 + intervalMs\<rparr>))
      else (Inl (Error ''Trip generation timed out''), s, lg))"
  by pat_completeness auto
termination
  by (relation "measure (\<lambda>(server, onProgress, maxAttempts, intervalMs, attempt, s, lg).
        maxAttempts - attempt)") auto

declare pollLoop.simps [simp del]

definition pollTripUntilComplete ::
  "(nat \<Rightarrow> TripResponse fetch_result) \<Rightarrow> (string \<Rightarrow> 's \<Rightarrow> 's) option \<Rightarrow> nat \<Rightarrow> nat \<Rightarrow>
   's \<Rightarrow> (error + TripResponse) \<times> 's \<times> poll_log" where
  "pollTripUntilComplete server onProgress maxAttempts intervalMs s =
     pollLoop server onProgress maxAttempts intervalMs 0 s no_log"

text \<open>The defaults of the two optional parameters.\<close>

definition default_maxAttempts :: nat where
  "default_maxAttempts = 60"

definition default_intervalMs :: nat where
  "default_intervalMs = 2000"

text \<open>A poll is still pending when it delivered a trip that is neither completed nor failed.\<close>

definition pending :: "TripResponse fetch_result \<Rightarrow> bool" where
  "pending fr =
     (case getTrip fr of
        Inl e \<Rightarrow> False
      | Inr trip \<Rightarrow> status trip \<noteq> ''completed'' \<and> status trip \<noteq> ''failed'')"

subsection \<open>Sample responses\<close>

text \<open>A trip without days carrying the given status and errors, and a response with it.\<close>

definition sampleTrip :: "string \<Rightarrow> string list option \<Rightarrow> TripResponse" where
  "sampleTrip st es =
     \<lparr>trip_id = ''trip_12345'', status = st, city = ''NYC'', origin = ''Buffalo'',
      start_date = ''2025-12-20'', end_date = ''2025-12-25'', days = Some [],
      booking_links = \<lparr>flights = ''f'', hotels = ''h''\<rparr>, errors = es\<rparr>"

definition respond :: "nat \<Rightarrow> string \<Rightarrow> 'a \<Rightarrow> 'a fetch_result" where
  "respond code text body = Resolved \<lparr>http_status = code, statusText = text, json = Inr body\<rparr>"

section \<open>The trip converter (utils/tripConverter.ts)\<close>

record FrontendDay =
  fd_date :: string
  fd_activities :: "FrontendActivity list"

record FrontendTrip =
  ft_trip_id :: string
  ft_status :: string
  ft_city :: string
  ft_origin :: string
  ft_start_date :: string
  ft_end_date :: string
  ft_days :: "FrontendDay list"
  ft_booking_links :: BookingLinks

text \<open>
  \<open>toLowerCase\<close> on the letters \<open>A\<close> to \<open>Z\<close>; a \<open>string\<close> is a list of bytes, and
  the bytes outside that range stay as they are.
\<close>

definition toLowerCase_char :: "char \<Rightarrow> char" where
  "toLowerCase_char c =
     (let n = (of_char c :: nat) in if 65 \<le> n \<and> n \<le> 90 then char_of (n + 32) else c)"

definition toLowerCase :: "string \<Rightarrow> string" where
  "toLowerCase s = map toLowerCase_char s"

text \<open>\<open>s.includes(t)\<close>: \<open>t\<close> occurs in \<open>s\<close> as a contiguous part.\<close>

definition str_includes :: "string \<Rightarrow> string \<Rightarrow> bool" where
  "str_includes s t = sublist t s"

text \<open>
  The test on the name of the POI stands inside the callback of \<open>tags.some\<close>, so it is
  made once per tag and not at all for a POI without tags.
\<close>

definition getActivityType :: "POI \<Rightarrow> string" where
  "getActivityType p =
     (let tags' = map toLowerCase (tags p)
      in if list_ex (\<lambda>tag. str_includes tag ''food'' \<or> str_includes tag ''restaurant'' \<or>
                            str_includes tag ''cafe'' \<or> str_includes tag ''pizza'' \<or>
                            str_includes tag ''lunch'' \<or> str_includes tag ''dinner'' \<or>
                            str_includes (toLowerCase (name p)) ''lunch'') tags'
         then ''food'' else ''attraction'')"

text \<open>\<open>v || undefined\<close> on a string that may be \<open>null\<close>: the empty string is dropped too.\<close>

definition orUndefined :: "string option \<Rightarrow> string option" where
  "orUndefined v = (case v of None \<Rightarrow> None | Some s \<Rightarrow> if s = [] then None else Some s)"

definition convertTimeBlockToActivity :: "TimeBlock \<Rightarrow> FrontendActivity" where
  "convertTimeBlockToActivity block =
     \<lparr>a_time = start_time block,
      a_name = name (poi block),
      a_type = getActivityType (poi block),
      a_lat = lat (poi block),
      a_lon = lon (poi block),
      a_duration_min = duration_min (poi block),
      a_booking_required = Some (booking_required (poi block)),
      a_booking_url = orUndefined (booking_url (poi block)),
      a_notes = orUndefined (poi_notes (poi block))\<rparr>"

definition convertDay :: "Day \<Rightarrow> FrontendDay" where
  "convertDay backendDay =
     (case blocks backendDay of
        Some bs \<Rightarrow> \<lparr>fd_date = date backendDay, fd_activities = map convertTimeBlockToActivity bs\<rparr>
      | None \<Rightarrow>
          (case activities backendDay of
             Some acts \<Rightarrow> \<lparr>fd_date = date backendDay, fd_activities = acts\<rparr>
           | None \<Rightarrow> \<lparr>fd_date = date backendDay, fd_activities = []\<rparr>))"

definition convertBackendTripToFrontend :: "TripResponse \<Rightarrow> FrontendTrip" where
  "convertBackendTripToFrontend backendTrip =
     (let ds = (case days backendTrip of Some l \<Rightarrow> l | None \<Rightarrow> [])
      in \<lparr>ft_trip_id = trip_id backendTrip,
          ft_status = status backendTrip,
          ft_city = city backendTrip,
          ft_origin = origin backendTrip,
          ft_start_date = start_date backendTrip,
          ft_end_date = end_date backendTrip,
          ft_days = map convertDay ds,
          ft_booking_links = booking_links backendTrip\<rparr>)"

subsection \<open>Sample days\<close>

definition samplePOI :: "string \<Rightarrow> string list \<Rightarrow> POI" where
  "samplePOI n ts =
     \<lparr>name = n, lat = 40, lon = -74, tags = ts, duration_min = 60, booking_required = False,
      booking_url = None, poi_notes = Some '''', open_hours = None\<rparr>"

definition sampleBlock :: "string \<Rightarrow> POI \<Rightarrow> TimeBlock" where
  "sampleBlock t p = \<lparr>start_time = t, end_time = ''23:00'', poi = p, travel_from_previous = 0\<rparr>"

section \<open>The trip hook (hooks/useTrip.ts)\<close>

text \<open>The four state variables of \<open>useTrip\<close>.\<close>

record hook_state =
  h_trip :: "FrontendTrip option"
  h_isLoading :: bool
  h_error :: "string option"
  h_progress :: "string option"

text \<open>
  The \<open>catch\<close> block. Everything thrown in the \<open>try\<close> blocks is an \<open>Error\<close>, so the
  message shown is the error's own.
\<close>

definition catchError :: "error \<Rightarrow> hook_state \<Rightarrow> hook_state" where
  "catchError err h = h\<lparr>h_error := Some (message err), h_progress := None\<rparr>"

text \<open>The progress callbacks handed to \<open>pollTripUntilComplete\<close>.\<close>

definition onProgressText :: "string \<Rightarrow> string \<Rightarrow> hook_state \<Rightarrow> hook_state" where
  "onProgressText text st h = (if st = ''processing'' then h\<lparr>h_progress := Some text\<rparr> else h)"

text \<open>
  \<open>createNewTrip\<close>: \<open>createResponse\<close> is what the \<open>POST\<close> resolves to and \<open>server\<close>
  what the polls resolve to.
\<close>

definition createNewTrip ::
  "CreateTripResponse fetch_result \<Rightarrow> (nat \<Rightarrow> TripResponse fetch_result) \<Rightarrow> hook_state \<Rightarrow> hook_state" where
  "createNewTrip createResponse server h =
     (let h1 = h\<lparr>h_isLoading := True, h_error := None, h_progress := Some ''Creating trip...''\<rparr>;
          h2 = (case createTrip createResponse of
                  Inl err \<Rightarrow> catchError err h1
                | Inr created \<Rightarrow>
                    (case pollTripUntilComplete server
                            (Some (onProgressText ''Planning your perfect trip...''))
                            default_maxAttempts default_intervalMs
                            (h1\<lparr>h_progress := Some ''Generating itinerary...''\<rparr>) of
                       (Inl err, h3, lg) \<Rightarrow> catchError err h3
                     | (Inr backendTrip, h3, lg) \<Rightarrow>
                         h3\<lparr>h_trip := Some (convertBackendTripToFrontend backendTrip),
                            h_progress := None\<rparr>))
      in h2\<lparr>h_isLoading := False\<rparr>)"

text \<open>\<open>modifyTrip\<close>: \<open>editResponse\<close> is what the \<open>PATCH\<close> resolves to.\<close>

definition modifyTrip ::
  "TripResponse fetch_result \<Rightarrow> (nat \<Rightarrow> TripResponse fetch_result) \<Rightarrow> hook_state \<Rightarrow> hook_state" where
  "modifyTrip editResponse server h =
     (case h_trip h of
        None \<Rightarrow> h\<lparr>h_error := Some ''No trip to modify''\<rparr>
      | Some t \<Rightarrow>
          let h1 = h\<lparr>h_isLoading := True, h_error := None, h_progress := Some ''Modifying trip...''\<rparr>;
              h2 = (case editTrip editResponse of
                      Inl err \<Rightarrow> catchError err h1
                    | Inr backendTrip \<Rightarrow>
                        let h3 = h1\<lparr>h_progress := Some ''Updating itinerary...''\<rparr>
                        in if status backendTrip = ''processing'' then
                             (case pollTripUntilComplete server
                                     (Some (onProgressText ''Applying your changes...''))
                                     default_maxAttempts default_intervalMs h3 of
                                (Inl err, h4, lg) \<Rightarrow> catchError err h4
                              | (Inr completedTrip, h4, lg) \<Rightarrow>
                                  h4\<lparr>h_trip := Some (convertBackendTripToFrontend completedTrip),
                                     h_progress := None\<rparr>)
                           else h3\<lparr>h_trip := Some (convertBackendTripToFrontend backendTrip),
                                  h_progress := None\<rparr>)
          in h2\<lparr>h_isLoading := False\<rparr>)"

definition clearTrip :: "hook_state \<Rightarrow> hook_state" where
  "clearTrip h = h\<lparr>h_trip := None, h_error := None, h_progress := None\<rparr>"

text \<open>
  The result of the \<open>try\<close> block of \<open>modifyTrip\<close>: the error thrown by the edit call or by
  the polling that follows a \<open>processing\<close> answer, or the trip that is then installed.
\<close>

definition editOutcome ::
  "TripResponse fetch_result \<Rightarrow> (nat \<Rightarrow> TripResponse fetch_result) \<Rightarrow> error + TripResponse" where
  "editOutcome editResponse server =
     (case editTrip editResponse of
        Inl err \<Rightarrow> Inl err
      | Inr backendTrip \<Rightarrow>
          if status backendTrip = ''processing'' then
            fst (pollTripUntilComplete server (None :: (string \<Rightarrow> unit \<Rightarrow> unit) option)
                   default_maxAttempts default_intervalMs ())
          else Inr backendTrip)"

definition sampleHook :: hook_state where
  "sampleHook =
     \<lparr>h_trip = Some (convertBackendTripToFrontend (sampleTrip ''completed'' None)),
      h_isLoading = False, h_error = None, h_progress = None\<rparr>"

section \<open>Dates and number formatting of the JavaScript platform\<close>

text \<open>
  A \<open>Date\<close> is its time value: the milliseconds since 1970-01-01T00:00:00Z, or \<open>None\<close> for
  an Invalid Date, whose time value is \<open>NaN\<close>. Time values are whole numbers of at most
  \<open>8.64e15\<close> in magnitude: the constructor and the setters of \<open>Date\<close> pass every time
  value through \<open>TimeClip\<close>, which makes a value beyond that range an Invalid Date.
\<close>

type_synonym Date = "int option"

definition maxTime :: int where
  "maxTime = 8640000000000000"

definition timeClip :: "int \<Rightarrow> Date" where
  "timeClip t = (if abs t \<le> maxTime then Some t else None)"

text \<open>
  What the code takes from the platform it runs on. The local time zone is a fixed offset
  from UTC, in minutes east of Greenwich. The three functions stand for the engine where
  the model does not compute its answer: \<open>pf_parse\<close> is \<open>new Date(s)\<close> on a string that is
  not one of the two ISO forms with a date of the calendar (ECMAScript leaves such strings
  to the engine), \<open>pf_number\<close> is \<open>Number(s)\<close> on a string that is not a short string
  of decimal digits, and \<open>pf_setHours\<close> is \<open>setHours\<close> on hours or minutes so large
  that floating-point rounding decides the result.
\<close>

record platform =
  pf_offset :: int
  pf_parse :: "string \<Rightarrow> Date"
  pf_number :: "string \<Rightarrow> int option"
  pf_setHours :: "int \<Rightarrow> int \<Rightarrow> int \<Rightarrow> Date"

definition msPerDay :: int where
  "msPerDay = 86400000"

text \<open>The day number of a date of the proleptic Gregorian calendar, and back.\<close>

definition days_from_civil :: "int \<Rightarrow> int \<Rightarrow> int \<Rightarrow> int" where
  "days_from_civil y m d =
     (let y' = (if m \<le> 2 then y - 1 else y);
          era = y' div 400;
          yoe = y' - era * 400;
          doy = (153 * (if m > 2 then m - 3 else m + 9) + 2) div 5 + d - 1;
          doe = yoe * 365 + yoe div 4 - yoe div 100 + doy
      in era * 146097 + doe - 719468)"

definition civil_from_days :: "int \<Rightarrow> int \<times> int \<times> int" where
  "civil_from_days z0 =
     (let z = z0 + 719468;
          era = z div 146097;
          doe = z - era * 146097;
          yoe = (doe - doe div 1460 + doe div 36524 - doe div 146096) div 365;
          y = yoe + era * 400;
          doy = doe - (365 * yoe + yoe div 4 - yoe div 100);
          mp = (5 * doy + 2) div 153;
          d = doy - (153 * mp + 2) div 5 + 1;
          m = (if mp < 10 then mp + 3 else mp - 9)
      in (if m \<le> 2 then y + 1 else y, m, d))"

definition isLeapYear :: "int \<Rightarrow> bool" where
  "isLeapYear y = (y mod 4 = 0 \<and> (y mod 100 \<noteq> 0 \<or> y mod 400 = 0))"

definition daysInMonth :: "int \<Rightarrow> int \<Rightarrow> int" where
  "daysInMonth y m =
     (if m = 2 then (if isLeapYear y then 29 else 28)
      else if m = 4 \<or> m = 6 \<or> m = 9 \<or> m = 11 then 30 else 31)"

subsection \<open>Numbers and text\<close>

definition isDigit :: "char \<Rightarrow> bool" where
  "isDigit c = (48 \<le> (of_char c :: nat) \<and> (of_char c :: nat) \<le> 57)"

definition digitValue :: "char \<Rightarrow> int" where
  "digitValue c = int (of_char c) - 48"

definition digitsValue :: "string \<Rightarrow> int" where
  "digitsValue s = foldl (\<lambda>acc c. acc * 10 + digitValue c) 0 s"

text \<open>
  \<open>Number(s)\<close> as \<open>setHours\<close> reads it: the whole part of the number, since \<open>setHours\<close>
  truncates its arguments, and \<open>None\<close> when the number is \<open>NaN\<close> or infinite, which makes
  the date invalid. The empty string is 0 and a string of up to fifteen decimal digits is
  its value, which a floating-point number holds exactly. Every other string (a sign, a
  fraction, an exponent, another radix, surrounding white space, more digits) is left to
  \<open>pf_number\<close>.
\<close>

definition Number :: "platform \<Rightarrow> string \<Rightarrow> int option" where
  "Number pf s =
     (if list_all isDigit s \<and> length s \<le> 15 then Some (digitsValue s) else pf_number pf s)"

definition digitChar :: "nat \<Rightarrow> char" where
  "digitChar n = char_of (48 + n)"

fun natToString :: "nat \<Rightarrow> string" where
  "natToString n = (if n < 10 then [digitChar n] else natToString (n div 10) @ [digitChar (n mod 10)])"

declare natToString.simps [simp del]

text \<open>\<open>n.toString()\<close> for a whole number.\<close>

definition intToString :: "int \<Rightarrow> string" where
  "intToString i = (if i < 0 then CHR ''-'' # natToString (nat (- i)) else natToString (nat i))"

text \<open>\<open>pad\<close>: \<open>value.toString().padStart(2, "0")\<close>\<close>

definition pad :: "int \<Rightarrow> string" where
  "pad v = (let s = intToString v in if length s < 2 then replicate (2 - length s) (CHR ''0'') @ s else s)"

text \<open>\<open>s.split(sep)\<close> for a separator of one character.\<close>

fun split :: "char \<Rightarrow> string \<Rightarrow> string list" where
  "split sep [] = [[]]"
| "split sep (c # cs) =
     (if c = sep then [] # split sep cs
      else (case split sep cs of [] \<Rightarrow> [[c]] | w # ws \<Rightarrow> (c # w) # ws))"

subsection \<open>Parsing and the fields of a date\<close>

text \<open>
  The two ISO forms the application builds: the date-only form \<open>YYYY-MM-DD\<close> and the
  date-time form \<open>YYYY-MM-DDTHH:mm:ss\<close> without offset, with a month from 01 to 12, a
  day that the month has, hours up to 23 and minutes and seconds up to 59.
\<close>

definition parseYMD :: "string \<Rightarrow> (int \<times> int \<times> int) option" where
  "parseYMD s =
     (if length s = 10 \<and> s ! 4 = CHR ''-'' \<and> s ! 7 = CHR ''-'' \<and>
         list_all isDigit (take 4 s) \<and> list_all isDigit (take 2 (drop 5 s)) \<and>
         list_all isDigit (drop 8 s)
      then (let y = digitsValue (take 4 s); m = digitsValue (take 2 (drop 5 s));
                d = digitsValue (drop 8 s)
            in if 1 \<le> m \<and> m \<le> 12 \<and> 1 \<le> d \<and> d \<le> daysInMonth y m then Some (y, m, d) else None)
      else None)"

definition parseHMS :: "string \<Rightarrow> int option" where
  "parseHMS s =
     (if length s = 8 \<and> s ! 2 = CHR '':'' \<and> s ! 5 = CHR '':'' \<and>
         list_all isDigit (take 2 s) \<and> list_all isDigit (take 2 (drop 3 s)) \<and>
         list_all isDigit (drop 6 s)
      then (let h = digitsValue (take 2 s); mi = digitsValue (take 2 (drop 3 s));
                sec = digitsValue (drop 6 s)
            in if h \<le> 23 \<and> mi \<le> 59 \<and> sec \<le> 59
               then Some (h * 3600000 + mi * 60000 + sec * 1000) else None)
      else None)"

definition localToUTC :: "int \<Rightarrow> int \<Rightarrow> int" where
  "localToUTC tz t = t - tz * 60000"

definition utcToLocal :: "int \<Rightarrow> int \<Rightarrow> int" where
  "utcToLocal tz t = t + tz * 60000"

text \<open>
  The time value of a string of one of the two forms, as ECMAScript fixes it: the
  date-only form is UTC midnight, the date-time form without offset is local time.
\<close>

definition isoTime :: "int \<Rightarrow> string \<Rightarrow> int option" where
  "isoTime tz s =
     (if length s = 10 then
        (case parseYMD s of
           None \<Rightarrow> None
         | Some (y, m, d) \<Rightarrow> Some (days_from_civil y m d * msPerDay))
      else if length s = 19 \<and> s ! 10 = CHR ''T'' then
        (case (parseYMD (take 10 s), parseHMS (drop 11 s)) of
           (Some (y, m, d), Some ms) \<Rightarrow> Some (localToUTC tz (days_from_civil y m d * msPerDay + ms))
         | _ \<Rightarrow> None)
      else None)"

text \<open>
  \<open>new Date(s)\<close>: the time value of the ISO form, and on any other string (another form,
  or a month, day, hour, minute or second out of range) what the engine makes of it.
\<close>

definition newDate :: "platform \<Rightarrow> string \<Rightarrow> Date" where
  "newDate pf s =
     (case isoTime (pf_offset pf) s of
        Some t \<Rightarrow> timeClip t
      | None \<Rightarrow> (case pf_parse pf s of None \<Rightarrow> None | Some t \<Rightarrow> timeClip t))"

text \<open>
  \<open>date.setHours(h, m, 0, 0)\<close>: the local day is kept and the time within it replaced;
  an Invalid Date stays invalid, and a \<open>NaN\<close> argument makes the date invalid. Hours and
  minutes may exceed 23 and 59 and be negative: they carry into the day. Up to \<open>10^9\<close> in
  magnitude every number that occurs is held exactly by a floating-point number; beyond,
  the result is left to \<open>pf_setHours\<close>.
\<close>

definition setHours :: "platform \<Rightarrow> Date \<Rightarrow> int option \<Rightarrow> int option \<Rightarrow> Date" where
  "setHours pf dt h m =
     (case (dt, h, m) of
        (Some t, Some hh, Some mm) \<Rightarrow>
          if abs hh \<le> 1000000000 \<and> abs mm \<le> 1000000000 then
            timeClip (localToUTC (pf_offset pf)
              ((utcToLocal (pf_offset pf) t div msPerDay) * msPerDay + hh * 3600000 + mm * 60000))
          else (case pf_setHours pf t hh mm of None \<Rightarrow> None | Some u \<Rightarrow> timeClip u)
      | _ \<Rightarrow> None)"

text \<open>The year, month (1 to 12), day, hours, minutes and seconds of a time value.\<close>

definition dateFields :: "int \<Rightarrow> int \<times> int \<times> int \<times> int \<times> int \<times> int" where
  "dateFields t =
     (let (y, m, d) = civil_from_days (t div msPerDay); r = t mod msPerDay
      in (y, m, d, r div 3600000, (r div 60000) mod 60, (r div 1000) mod 60))"

subsection \<open>A sample platform\<close>

text \<open>
  A platform at the given offset whose engine makes an Invalid Date and \<open>NaN\<close> of
  everything the model leaves to it.
\<close>

definition fixedZone :: "int \<Rightarrow> platform" where
  "fixedZone tz =
     \<lparr>pf_offset = tz, pf_parse = (\<lambda>s. None), pf_number = (\<lambda>s. None),
      pf_setHours = (\<lambda>t h m. None)\<rparr>"

section \<open>The calendar export (utils/calendarExport.ts)\<close>

text \<open>
  The trip of the exports. \<open>lat\<close> and \<open>lon\<close> are \<open>None\<close> when the value is not a usable
  number (missing, \<open>null\<close> or \<open>NaN\<close>); \<open>end_date\<close> is declared a string, but the code
  provides for its absence. \<open>duration_min\<close> is a whole number of minutes, as the backend
  sends it.
\<close>

record TripActivity =
  ta_time :: string
  ta_type :: string
  ta_name :: string
  ta_lat :: "real option"
  ta_lon :: "real option"
  ta_duration_min :: "int option"
  ta_booking_required :: "bool option"
  ta_booking_url :: "string option"
  ta_notes :: "string option"

record TripDay =
  td_date :: string
  td_activities :: "TripActivity list"

record TripLinks =
  tl_flights :: "string option"
  tl_hotels :: "string option"

record Trip =
  t_trip_id :: "string option"
  t_status :: "string option"
  t_city :: string
  t_origin :: "string option"
  t_start_date :: string
  t_end_date :: "string option"
  t_days :: "TripDay list"
  t_booking_links :: "TripLinks option"

definition DEFAULT_DURATION_MIN :: int where
  "DEFAULT_DURATION_MIN = 90"

definition formatICSDate :: "Date \<Rightarrow> string" where
  "formatICSDate dt =
     (case dt of
        None \<Rightarrow> ''NaNNaNNaNTNaNNaNNaNZ''
      | Some t \<Rightarrow>
          (let (y, m, d, hh, mm, ss) = dateFields t
           in intToString y @ pad m @ pad d @ ''T'' @ pad hh @ pad mm @ pad ss @ ''Z''))"

text \<open>\<open>s.replace(/c/g, r)\<close> for a single character \<open>c\<close>.\<close>

definition replaceAll :: "char \<Rightarrow> string \<Rightarrow> string \<Rightarrow> string" where
  "replaceAll c r s = concat (map (\<lambda>x. if x = c then r else [x]) s)"

definition backslash :: char where
  "backslash = CHR 0x5C"

definition newline :: char where
  "newline = CHR 0x0A"

definition sanitize :: "string option \<Rightarrow> string" where
  "sanitize v =
     (case v of
        None \<Rightarrow> []
      | Some s \<Rightarrow>
          replaceAll newline [backslash, CHR ''n'']
            (replaceAll (CHR '';'') [backslash, CHR '';'']
              (replaceAll (CHR '','') [backslash, CHR '','']
                (replaceAll backslash [backslash, backslash] s))))"

text \<open>
  The escape in the words of the claim, to compare \<open>sanitize\<close> with: a backslash before
  every backslash, comma and semicolon, and backslash \<open>n\<close> for every newline, in one pass
  over the text.
\<close>

definition escapeChar :: "char \<Rightarrow> string" where
  "escapeChar c =
     (if c = backslash then [backslash, backslash]
      else if c = CHR '','' then [backslash, CHR '','']
      else if c = CHR '';'' then [backslash, CHR '';'']
      else if c = newline then [backslash, CHR ''n'']
      else [c])"

definition escaped :: "string \<Rightarrow> string" where
  "escaped s = concat (map escapeChar s)"

text \<open>
  \<open>[hours, minutes] = activity.time.split(":").map(Number)\<close> and the start of the event:
  local midnight of the day, then \<open>setHours(hours ?? 0, minutes ?? 0, 0, 0)\<close>. A missing
  second part counts as 0; a part that is not a number makes the date invalid.
\<close>

definition eventStart :: "platform \<Rightarrow> TripActivity \<Rightarrow> TripDay \<Rightarrow> Date" where
  "eventStart pf activity day =
     (let parts = map (Number pf) (split (CHR '':'') (ta_time activity));
          hours = (case parts of [] \<Rightarrow> Some 0 | h # rest \<Rightarrow> h);
          minutes = (case parts of h # m # rest \<Rightarrow> m | _ \<Rightarrow> Some 0)
      in setHours pf (newDate pf (td_date day @ ''T00:00:00'')) hours minutes)"

definition eventDuration :: "TripActivity \<Rightarrow> int" where
  "eventDuration activity =
     (case ta_duration_min activity of None \<Rightarrow> DEFAULT_DURATION_MIN | Some d \<Rightarrow> d)"

text \<open>
  \<open>new Date(start.getTime() + eventDuration * 60 * 1000)\<close>: the time value of an invalid
  start is \<open>NaN\<close>, and so is then the sum; the constructor clips a sum out of range to an
  Invalid Date. On whole minutes the floating-point sum is the sum of the integers
  wherever that is in range, and out of range when that is.
\<close>

definition eventEnd :: "platform \<Rightarrow> TripActivity \<Rightarrow> TripDay \<Rightarrow> Date" where
  "eventEnd pf activity day =
     (case eventStart pf activity day of
        None \<Rightarrow> None
      | Some t \<Rightarrow> timeClip (t + eventDuration activity * 60 * 1000))"

text \<open>\<open>xs.filter(Boolean)\<close> on strings that may be \<open>null\<close>: the empty string goes too.\<close>

definition filterBoolean :: "string option list \<Rightarrow> string list" where
  "filterBoolean xs = concat (map (\<lambda>x. case x of None \<Rightarrow> [] | Some s \<Rightarrow> if s = [] then [] else [s]) xs)"

definition truthy :: "string option \<Rightarrow> bool" where
  "truthy v = (case v of None \<Rightarrow> False | Some s \<Rightarrow> s \<noteq> [])"

definition descriptionParts :: "TripActivity \<Rightarrow> string list" where
  "descriptionParts activity =
     filterBoolean
       [Some (''Type: '' @ ta_type activity),
        (if ta_booking_required activity = Some True then Some ''Booking required'' else None),
        (case ta_booking_url activity of
           None \<Rightarrow> None
         | Some u \<Rightarrow> if u = [] then None else Some (''Link: '' @ u)),
        ta_notes activity]"

text \<open>The lines of one event, before they are joined.\<close>

definition eventLines :: "platform \<Rightarrow> TripActivity \<Rightarrow> TripDay \<Rightarrow> string \<Rightarrow> string \<Rightarrow> nat \<Rightarrow> string list" where
  "eventLines pf activity day cty stamp index =
     filterBoolean
       [Some ''BEGIN:VEVENT'',
        Some (''UID:'' @ stamp @ ''-'' @ natToString index @ ''@wandergenie''),
        Some (''DTSTAMP:'' @ stamp),
        Some (''DTSTART:'' @ formatICSDate (eventStart pf activity day)),
        Some (''DTEND:'' @ formatICSDate (eventEnd pf activity day)),
        Some (''SUMMARY:'' @ sanitize (Some (ta_name activity))),
        Some (''LOCATION:'' @ sanitize (Some (ta_name activity @ '', '' @ cty))),
        (if descriptionParts activity \<noteq> []
         then Some (''DESCRIPTION:'' @ sanitize (Some (join '' | '' (descriptionParts activity))))
         else None),
        (if truthy (ta_booking_url activity)
         then Some (''URL:'' @ sanitize (ta_booking_url activity)) else None),
        Some ''END:VEVENT'']"

definition buildEvent :: "platform \<Rightarrow> TripActivity \<Rightarrow> TripDay \<Rightarrow> string \<Rightarrow> string \<Rightarrow> nat \<Rightarrow> string" where
  "buildEvent pf activity day cty stamp index = join [newline] (eventLines pf activity day cty stamp index)"

text \<open>\<open>xs.map((x, i) => f(x, i))\<close>\<close>

definition mapIndexed :: "('a \<Rightarrow> nat \<Rightarrow> 'b) \<Rightarrow> 'a list \<Rightarrow> 'b list" where
  "mapIndexed f xs = map (\<lambda>(i, x). f x i) (enumerate 0 xs)"

text \<open>The \<open>events\<close> of \<open>generateICS\<close>, one text per activity.\<close>

definition icsEvents :: "platform \<Rightarrow> string \<Rightarrow> Trip \<Rightarrow> string list" where
  "icsEvents pf stamp trp =
     concat (mapIndexed
       (\<lambda>day dayIndex.
          mapIndexed
            (\<lambda>activity activityIndex.
               buildEvent pf activity day (t_city trp) stamp (dayIndex * 100 + activityIndex))
            (td_activities day))
       (t_days trp))"

text \<open>\<open>now\<close> is the time value of \<open>new Date()\<close>.\<close>

definition generateICS :: "platform \<Rightarrow> int \<Rightarrow> Trip \<Rightarrow> string" where
  "generateICS pf now trp =
     (let stamp = formatICSDate (Some now)
      in join [newline]
           ([''BEGIN:VCALENDAR'', ''VERSION:2.0'', ''PRODID:-//WanderGenie//Trip Export//EN'',
             ''CALSCALE:GREGORIAN''] @ icsEvents pf stamp trp @ [''END:VCALENDAR'']))"

text \<open>The lines of all events, event by event, for the line-wise reading of the output.\<close>

definition icsEventLines :: "platform \<Rightarrow> string \<Rightarrow> Trip \<Rightarrow> string list list" where
  "icsEventLines pf stamp trp =
     concat (mapIndexed
       (\<lambda>day dayIndex.
          mapIndexed
            (\<lambda>activity activityIndex.
               eventLines pf activity day (t_city trp) stamp (dayIndex * 100 + activityIndex))
            (td_activities day))
       (t_days trp))"

subsection \<open>A sample trip\<close>

definition sampleActivity :: "string \<Rightarrow> string \<Rightarrow> int option \<Rightarrow> TripActivity" where
  "sampleActivity t n dur =
     \<lparr>ta_time = t, ta_type = ''attraction'', ta_name = n, ta_lat = None, ta_lon = None,
      ta_duration_min = dur, ta_booking_required = None, ta_booking_url = None,
      ta_notes = None\<rparr>"

definition sampleExportTrip :: "TripDay list \<Rightarrow> Trip" where
  "sampleExportTrip ds =
     \<lparr>t_trip_id = None, t_status = None, t_city = ''NYC'', t_origin = None,
      t_start_date = ''2025-12-20'', t_end_date = Some ''2025-12-25'', t_days = ds,
      t_booking_links = None\<rparr>"

section \<open>The booking links (utils/travelLinks.ts)\<close>

text \<open>
  \<open>formatIsoDate\<close> reads the year, month and day of a date in local time; the fields of
  an Invalid Date are \<open>NaN\<close>.
\<close>

definition formatIsoDate :: "platform \<Rightarrow> Date \<Rightarrow> string" where
  "formatIsoDate pf dt =
     (case dt of
        None \<Rightarrow> ''NaN-NaN-NaN''
      | Some t \<Rightarrow>
          (let (y, m, d, hh, mm, ss) = dateFields (utcToLocal (pf_offset pf) t)
           in intToString y @ ''-'' @ pad m @ ''-'' @ pad d))"

definition getAllActivities :: "Trip \<Rightarrow> TripActivity list" where
  "getAllActivities trp = concat (map td_activities (t_days trp))"

text \<open>The first activity with usable coordinates, else the first activity, else nothing.\<close>

definition getPrimaryPOI :: "Trip \<Rightarrow> TripActivity option" where
  "getPrimaryPOI trp =
     (case find (\<lambda>activity. ta_lat activity \<noteq> None \<and> ta_lon activity \<noteq> None) (getAllActivities trp) of
        Some a \<Rightarrow> Some a
      | None \<Rightarrow> (case getAllActivities trp of [] \<Rightarrow> None | a # rest \<Rightarrow> Some a))"

definition getStartDate :: "platform \<Rightarrow> Trip \<Rightarrow> Date" where
  "getStartDate pf trp = newDate pf (t_start_date trp)"

definition getEndDate :: "platform \<Rightarrow> Trip \<Rightarrow> Date" where
  "getEndDate pf trp =
     newDate pf (case t_end_date trp of None \<Rightarrow> t_start_date trp | Some e \<Rightarrow> e)"

subsection \<open>URLSearchParams\<close>

text \<open>
  The parameters are a list of pairs in the order of insertion. \<open>set\<close> overwrites the
  first pair of the name and drops the others, or appends a new pair.
\<close>

type_synonym params = "(string \<times> string) list"

definition params_set :: "string \<Rightarrow> string \<Rightarrow> params \<Rightarrow> params" where
  "params_set k v ps =
     (if k \<in> fst ` set ps
      then (let i = length (takeWhile (\<lambda>p. fst p \<noteq> k) ps)
            in take i ps @ [(k, v)] @ filter (\<lambda>p. fst p \<noteq> k) (drop (Suc i) ps))
      else ps @ [(k, v)])"

definition params_get :: "string \<Rightarrow> params \<Rightarrow> string option" where
  "params_get k ps = map_option snd (find (\<lambda>p. fst p = k) ps)"

definition hexDigit :: "nat \<Rightarrow> char" where
  "hexDigit n = (if n < 10 then char_of (48 + n) else char_of (55 + n))"

text \<open>
  The \<open>application/x-www-form-urlencoded\<close> serialisation, byte by byte: letters, digits
  and \<open>* - . _\<close> stay, a space becomes \<open>+\<close>, any other byte is percent-encoded.
\<close>

definition isUnreserved :: "char \<Rightarrow> bool" where
  "isUnreserved c =
     (let n = (of_char c :: nat)
      in (48 \<le> n \<and> n \<le> 57) \<or> (65 \<le> n \<and> n \<le> 90) \<or> (97 \<le> n \<and> n \<le> 122) \<or>
         c = CHR ''*'' \<or> c = CHR ''-'' \<or> c = CHR ''.'' \<or> c = CHR ''_'')"

definition urlencodeChar :: "char \<Rightarrow> string" where
  "urlencodeChar c =
     (if isUnreserved c then [c]
      else if c = CHR '' '' then ''+''
      else [CHR ''%'', hexDigit ((of_char c :: nat) div 16), hexDigit ((of_char c :: nat) mod 16)])"

definition urlencode :: "string \<Rightarrow> string" where
  "urlencode s = concat (map urlencodeChar s)"

definition params_toString :: "params \<Rightarrow> string" where
  "params_toString ps = join ''&'' (map (\<lambda>(k, v). urlencode k @ ''='' @ urlencode v) ps)"

subsection \<open>buildHotelsLink\<close>

record HotelsLink =
  url :: string
  landmark :: string

text \<open>
  \<open>anchor?.lat && anchor?.lon\<close>: the coordinates of the anchor when both are numbers
  other than 0.
\<close>

definition anchorCoordinates :: "TripActivity option \<Rightarrow> (real \<times> real) option" where
  "anchorCoordinates anchor =
     (case anchor of
        None \<Rightarrow> None
      | Some a \<Rightarrow> (case (ta_lat a, ta_lon a) of
                     (Some x, Some y) \<Rightarrow> if x \<noteq> 0 \<and> y \<noteq> 0 then Some (x, y) else None
                   | _ \<Rightarrow> None))"

text \<open>
  The parameters of the generated search. \<open>numberToString\<close> stands for \<open>toString\<close> on
  the coordinates, which are floating-point numbers.
\<close>

definition hotelsParams :: "platform \<Rightarrow> (real \<Rightarrow> string) \<Rightarrow> Trip \<Rightarrow> params" where
  "hotelsParams pf numberToString trp =
     (let anchor = getPrimaryPOI trp;
          checkin = getStartDate pf trp;
          checkout = getEndDate pf trp;
          ps = [(''ss'', t_city trp @ '' near '' @
                   (case anchor of None \<Rightarrow> ''city center'' | Some a \<Rightarrow> ta_name a)),
                (''checkin'', formatIsoDate pf checkin),
                (''checkout'', formatIsoDate pf checkout),
                (''group_adults'', ''2''),
                (''no_rooms'', ''1''),
                (''group_children'', ''0'')]
      in case anchorCoordinates anchor of
           None \<Rightarrow> ps
         | Some (x, y) \<Rightarrow>
             params_set ''order'' ''distance_from_landmark''
               (params_set ''radius'' ''5''
                 (params_set ''selected_longitude'' (numberToString y)
                   (params_set ''selected_latitude'' (numberToString x) ps))))"

definition hotelsGeneratedUrl :: "platform \<Rightarrow> (real \<Rightarrow> string) \<Rightarrow> Trip \<Rightarrow> string" where
  "hotelsGeneratedUrl pf numberToString trp =
     ''https://www.booking.com/searchresults.html?'' @ params_toString (hotelsParams pf numberToString trp)"

definition buildHotelsLink :: "platform \<Rightarrow> (real \<Rightarrow> string) \<Rightarrow> Trip \<Rightarrow> HotelsLink" where
  "buildHotelsLink pf numberToString trp =
     \<lparr>url = (case t_booking_links trp of
               None \<Rightarrow> hotelsGeneratedUrl pf numberToString trp
             | Some links \<Rightarrow>
                 (case tl_hotels links of
                    None \<Rightarrow> hotelsGeneratedUrl pf numberToString trp
                  | Some h \<Rightarrow> h)),
      landmark = (case getPrimaryPOI trp of None \<Rightarrow> t_city trp | Some a \<Rightarrow> ta_name a)\<rparr>"

section \<open>The itinerary engine, modelled from the specification\<close>

text \<open>
  The packaging and validation engine (Constraint Resolver, Day Scheduler, Schema Validator
  and Auto-Patcher of sections 3 and 4 of the specification) is written in Python under
  \<open>backend/\<close>, and that code is not among the sources at hand. The definitions of this
  section follow the specification instead. Times are minutes of the day, dates are day
  numbers, and what the specification leaves open (the travel-time estimate, the weights
  of the score, the gap between activities, the defaults per pace, the two checks whose
  data it does not describe) is a field of the record \<open>engine\<close>.
\<close>

text \<open>Modelled from the spec: the opening hours of a POI, \<open>Unknown | Window(start, end)\<close>.\<close>

datatype opening_hours = Unknown | Window nat nat

text \<open>
  Modelled from the spec: the POI record of the candidate pool (section 3); coordinates and
  provenance are left to the travel-time estimate, which is a parameter.
\<close>

record EPOI =
  poi_id :: nat
  poi_tags :: "string list"
  poi_duration :: "nat option"
  poi_popularity :: rat
  poi_booking_required :: bool
  poi_hours :: "opening_hours list"

text \<open>
  Modelled from the spec: the opening hours per weekday; \<open>poi_hours\<close> lists them from
  weekday 0 on, and a weekday beyond the list has unknown hours.
\<close>

definition hoursOn :: "EPOI \<Rightarrow> nat \<Rightarrow> opening_hours" where
  "hoursOn p wd = (if wd < length (poi_hours p) then poi_hours p ! wd else Unknown)"

text \<open>Modelled from the spec: the pace of a trip (section 3).\<close>

datatype pace = Relaxed | Moderate | Packed

text \<open>Modelled from the spec: TripConstraints (section 3), with the dates as day numbers.\<close>

record TripConstraints =
  c_start_date :: int
  c_end_date :: int
  c_pace :: pace
  c_cap :: nat
  c_preferred :: "string list"
  c_avoided :: "string list"

text \<open>Modelled from the spec: TimeBlock (section 3).\<close>

record SBlock =
  sb_day :: nat
  sb_start :: nat
  sb_end :: nat
  sb_poi :: EPOI
  sb_travel :: nat
  sb_note :: "string option"

text \<open>Modelled from the spec: Day (section 3), a date and its ordered blocks.\<close>

record SDay =
  sd_date :: int
  sd_blocks :: "SBlock list"

text \<open>Modelled from the spec: the status of a Trip, \<open>processing | completed | failed\<close>.\<close>

datatype trip_status = Processing | Completed | Failed

text \<open>
  Modelled from the spec: Trip (section 3); the booking links take no part in scheduling
  and validation and are left out.
\<close>

record STrip =
  st_id :: string
  st_status :: trip_status
  st_city :: string
  st_constraints :: TripConstraints
  st_days :: "SDay list"
  st_validation_errors :: "string list"

text \<open>
  Modelled from the spec: what sections 4.1 to 4.4 name without fixing it. \<open>en_travel\<close> is
  the Travel-Time Estimator (from the POI at the cursor, or from the origin, to the
  candidate), \<open>en_w1\<close> to \<open>en_w3\<close> the weights of the score, \<open>en_gap\<close> the fixed
  inter-activity gap, \<open>en_default_duration\<close> the default for a missing duration,
  \<open>en_window\<close> and \<open>en_count\<close> the day window and activity count of a pace,
  \<open>en_weekday\<close> the weekday of a date, \<open>en_lead_ok\<close> the booking lead-time check of a block
  against the start of the trip and \<open>en_fields_ok\<close> the required-field check.
\<close>

record engine =
  en_travel :: "EPOI option \<Rightarrow> EPOI \<Rightarrow> nat"
  en_w1 :: rat
  en_w2 :: rat
  en_w3 :: rat
  en_gap :: nat
  en_default_duration :: nat
  en_window :: "pace \<Rightarrow> nat \<times> nat"
  en_count :: "pace \<Rightarrow> nat"
  en_weekday :: "int \<Rightarrow> nat"
  en_lead_ok :: "int \<Rightarrow> int \<Rightarrow> EPOI \<Rightarrow> bool"
  en_fields_ok :: "SBlock \<Rightarrow> bool"

subsection \<open>Constraint Resolver and Day Scheduler\<close>

text \<open>
  Modelled from the spec: the Constraint Resolver fills a missing \<open>duration_min\<close> with a
  default (section 4.1).
\<close>

definition durationOf :: "engine \<Rightarrow> EPOI \<Rightarrow> nat" where
  "durationOf E p = (case poi_duration p of None \<Rightarrow> en_default_duration E | Some d \<Rightarrow> d)"

text \<open>
  Modelled from the spec: the per-day budget, the activity count of the pace within the
  per-day activity cap (section 4.1).
\<close>

definition dayBudget :: "engine \<Rightarrow> TripConstraints \<Rightarrow> nat" where
  "dayBudget E c = min (en_count E (c_pace c)) (c_cap c)"

text \<open>
  Modelled from the spec: step 2a and 2e of the Day Scheduler. A candidate fits at the
  cursor when its opening window, if known, contains the time from the cursor to the
  cursor plus its duration, and when its block ends before the day window closes.
\<close>

definition fitsAt :: "engine \<Rightarrow> nat \<Rightarrow> nat \<Rightarrow> nat \<Rightarrow> EPOI option \<Rightarrow> EPOI \<Rightarrow> bool" where
  "fitsAt E wd windowEnd cursor prev p =
     (cursor + en_travel E prev p + durationOf E p \<le> windowEnd \<and>
      (case hoursOn p wd of
         Unknown \<Rightarrow> True
       | Window a b \<Rightarrow> a \<le> cursor \<and> cursor + durationOf E p \<le> b))"

text \<open>
  Modelled from the spec: two POIs of the same category, that is, with a tag in common
  (step 2b).
\<close>

definition sharesTag :: "EPOI \<Rightarrow> EPOI \<Rightarrow> bool" where
  "sharesTag p q = list_ex (\<lambda>tg. tg \<in> set (poi_tags q)) (poi_tags p)"

text \<open>
  Modelled from the spec: a pool is tag-homogeneous when all its POIs carry the same tags
  (step 2b).
\<close>

definition tagHomogeneous :: "EPOI list \<Rightarrow> bool" where
  "tagHomogeneous ps = list_all (\<lambda>p. list_all (\<lambda>q. set (poi_tags p) = set (poi_tags q)) ps) ps"

text \<open>
  Modelled from the spec: step 2b, the score
  \<open>w1 * popularity - w2 * travel_time - w3 * category_repeat_penalty\<close>; the penalty
  falls on a candidate that shares a tag with the POI just scheduled, unless the
  remaining pool is tag-homogeneous.
\<close>

definition score :: "engine \<Rightarrow> EPOI option \<Rightarrow> EPOI list \<Rightarrow> EPOI \<Rightarrow> rat" where
  "score E prev remaining p =
     en_w1 E * poi_popularity p - en_w2 E * of_nat (en_travel E prev p) -
     en_w3 E * (case prev of
                  None \<Rightarrow> 0
                | Some q \<Rightarrow> if sharesTag q p \<and> \<not> tagHomogeneous remaining then 1 else 0)"

text \<open>Modelled from the spec: step 2c, the maximal score, ties to the smaller POI id.\<close>

fun pickBest :: "(EPOI \<Rightarrow> rat) \<Rightarrow> EPOI list \<Rightarrow> EPOI option" where
  "pickBest f [] = None"
| "pickBest f (p # ps) =
     (case pickBest f ps of
        None \<Rightarrow> Some p
      | Some q \<Rightarrow> if f q > f p \<or> (f q = f p \<and> poi_id q < poi_id p) then Some q else Some p)"

text \<open>
  Modelled from the spec: the per-day loop of section 4.3 from the state
  \<open>{cursor_time, remaining_budget, used_ids}\<close>. Step 2d appends the block
  \<open>start = cursor_time + travel, end = start + duration\<close>, moves the cursor to
  \<open>end + gap\<close>, decrements the budget and marks the POI used; step 2e stops the day when
  no candidate fits. The result is the blocks of the day and the ids used so far.
\<close>

fun dayLoop ::
  "engine \<Rightarrow> nat \<Rightarrow> nat \<Rightarrow> nat \<Rightarrow> EPOI list \<Rightarrow> nat \<Rightarrow> nat \<Rightarrow> nat list \<Rightarrow> EPOI option \<Rightarrow>
   SBlock list \<times> nat list" where
  "dayLoop E wd windowEnd dayIndex pool 0 cursor used prev = ([], used)"
| "dayLoop E wd windowEnd dayIndex pool (Suc budget) cursor used prev =
     (let unused = filter (\<lambda>p. poi_id p \<notin> set used) pool;
          cands = filter (fitsAt E wd windowEnd cursor prev) unused
      in case pickBest (score E prev unused) cands of
           None \<Rightarrow> ([], used)
         | Some p \<Rightarrow>
             (let tr = en_travel E prev p;
                  start = cursor + tr;
                  fin = start + durationOf E p;
                  blk = \<lparr>sb_day = dayIndex, sb_start = start, sb_end = fin, sb_poi = p,
                         sb_travel = tr,
                         sb_note = (if hoursOn p wd = Unknown then Some ''opening hours unknown''
                                    else None)\<rparr>;
                  (rest, used') = dayLoop E wd windowEnd dayIndex pool budget (fin + en_gap E)
                                    (poi_id p # used) (Some p)
              in (blk # rest, used')))"

text \<open>
  Modelled from the spec: one Day per date of the range, scheduled in order; the POIs a
  day leaves unused stay candidates of the next day (step 3), the used ones do not.
\<close>

fun scheduleDays ::
  "engine \<Rightarrow> TripConstraints \<Rightarrow> EPOI list \<Rightarrow> nat \<Rightarrow> int list \<Rightarrow> nat list \<Rightarrow> SDay list" where
  "scheduleDays E c pool dayIndex [] used = []"
| "scheduleDays E c pool dayIndex (dt # dts) used =
     (let (windowStart, windowEnd) = en_window E (c_pace c);
          (bs, used') = dayLoop E (en_weekday E dt) windowEnd dayIndex pool (dayBudget E c)
                          windowStart used None
      in \<lparr>sd_date = dt, sd_blocks = bs\<rparr> # scheduleDays E c pool (Suc dayIndex) dts used')"

text \<open>
  Modelled from the spec: an empty Day is valid output, recorded via
  \<open>validation_errors\<close> (section 4.3).
\<close>

definition emptyDayNotes :: "SDay list \<Rightarrow> string list" where
  "emptyDayNotes ds = map (\<lambda>d. ''empty day'') (filter (\<lambda>d. sd_blocks d = []) ds)"

subsection \<open>Schema Validator and Auto-Patcher\<close>

text \<open>Modelled from the spec: the kinds of violation of the ordered checks (a) to (f).\<close>

datatype violation =
    Overlap nat
  | OverCap nat
  | OutsideHours nat nat
  | LeadTime nat nat
  | DuplicatePOI nat
  | MissingField nat nat

text \<open>
  Modelled from the spec: check (a), non-overlap with the travel buffer,
  \<open>start[i+1] >= end[i] + travel[i+1]\<close> for the consecutive blocks of a day.
\<close>

fun nonOverlapping :: "SBlock list \<Rightarrow> bool" where
  "nonOverlapping [] = True"
| "nonOverlapping [b] = True"
| "nonOverlapping (a # b # bs) = (sb_end a + sb_travel b \<le> sb_start b \<and> nonOverlapping (b # bs))"

text \<open>Modelled from the spec: the ids of the POIs of a trip, in schedule order.\<close>

definition tripPoiIds :: "SDay list \<Rightarrow> nat list" where
  "tripPoiIds ds = concat (map (\<lambda>d. map (\<lambda>b. poi_id (sb_poi b)) (sd_blocks d)) ds)"

text \<open>
  Modelled from the spec: the indices of the entries of a list that fail a check.
\<close>

definition failing :: "('a \<Rightarrow> bool) \<Rightarrow> 'a list \<Rightarrow> nat list" where
  "failing passes xs = map fst (filter (\<lambda>(i, x). \<not> passes x) (enumerate 0 xs))"

text \<open>
  Modelled from the spec: check (c) of section 4.4, opening hours where known: the start
  of a block lies inside the window of its POI.
\<close>

definition hoursOk :: "engine \<Rightarrow> SDay \<Rightarrow> SBlock \<Rightarrow> bool" where
  "hoursOk E d b =
     (case hoursOn (sb_poi b) (en_weekday E (sd_date d)) of
        Unknown \<Rightarrow> True
      | Window lo hi \<Rightarrow> lo \<le> sb_start b \<and> sb_start b \<le> hi)"

text \<open>
  Modelled from the spec: check (d); the booking lead time counts for a POI that requires
  booking.
\<close>

definition leadOk :: "engine \<Rightarrow> STrip \<Rightarrow> SDay \<Rightarrow> SBlock \<Rightarrow> bool" where
  "leadOk E trp d b =
     (poi_booking_required (sb_poi b) \<longrightarrow>
        en_lead_ok E (c_start_date (st_constraints trp)) (sd_date d) (sb_poi b))"

text \<open>
  Modelled from the spec: a check on the blocks, run day by day; a failing block gives a
  violation with the index of its day and its own.
\<close>

definition perDay :: "(SDay \<Rightarrow> SBlock \<Rightarrow> bool) \<Rightarrow> (nat \<Rightarrow> nat \<Rightarrow> violation) \<Rightarrow> SDay list \<Rightarrow> violation list" where
  "perDay passes mk ds =
     concat (map (\<lambda>(i, d). map (mk i) (failing (passes d) (sd_blocks d))) (enumerate 0 ds))"

text \<open>Modelled from the spec: the violations of a trip, in the order of the checks (a) to (f).\<close>

definition violations :: "engine \<Rightarrow> STrip \<Rightarrow> violation list" where
  "violations E trp =
     (let ds = st_days trp
      in map Overlap (failing (\<lambda>d. nonOverlapping (sd_blocks d)) ds) @
         map OverCap (failing (\<lambda>d. length (sd_blocks d) \<le> c_cap (st_constraints trp)) ds) @
         perDay (hoursOk E) OutsideHours ds @
         perDay (leadOk E trp) LeadTime ds @
         (if distinct (tripPoiIds ds) then []
          else map DuplicatePOI (remdups (filter (\<lambda>i. 1 < count_list (tripPoiIds ds) i) (tripPoiIds ds)))) @
         perDay (\<lambda>d. en_fields_ok E) MissingField ds)"

text \<open>
  Modelled from the spec: the patch for an overlap shifts the later blocks forward. A
  block that starts before the end of its predecessor plus its travel time is moved to
  start there, keeping its length.
\<close>

fun shiftForward :: "nat \<Rightarrow> SBlock list \<Rightarrow> SBlock list" where
  "shiftForward prevEnd [] = []"
| "shiftForward prevEnd (b # bs) =
     (let b' = (if sb_start b < prevEnd + sb_travel b
                then b\<lparr>sb_start := prevEnd + sb_travel b,
                       sb_end := prevEnd + sb_travel b + (sb_end b - sb_start b)\<rparr>
                else b)
      in b' # shiftForward (sb_end b') bs)"

text \<open>
  Modelled from the spec: the overlap patch on a day; the first block stays and the later
  ones are shifted.
\<close>

definition shiftDay :: "SBlock list \<Rightarrow> SBlock list" where
  "shiftDay bs = (case bs of [] \<Rightarrow> [] | b # rest \<Rightarrow> b # shiftForward (sb_end b) rest)"

text \<open>
  Modelled from the spec: the patch for a duplicate drops the later of two blocks with
  the same POI id, across the days of the trip.
\<close>

fun dropSeen :: "nat list \<Rightarrow> SBlock list \<Rightarrow> SBlock list \<times> nat list" where
  "dropSeen seen [] = ([], seen)"
| "dropSeen seen (b # bs) =
     (if poi_id (sb_poi b) \<in> set seen then dropSeen seen bs
      else (let (rest, seen') = dropSeen (poi_id (sb_poi b) # seen) bs in (b # rest, seen')))"

text \<open>Modelled from the spec: the duplicate patch, day by day, with the ids seen so far.\<close>

fun dropDuplicates :: "nat list \<Rightarrow> SDay list \<Rightarrow> SDay list" where
  "dropDuplicates seen [] = []"
| "dropDuplicates seen (d # ds) =
     (let (bs, seen') = dropSeen seen (sd_blocks d)
      in d\<lparr>sd_blocks := bs\<rparr> # dropDuplicates seen' ds)"

text \<open>
  Modelled from the spec: auto-patch, a total function per violation kind with the
  results \<open>Patched(Trip)\<close> and \<open>Unpatchable(reason)\<close>. The specification names the fix
  for an overlap and for a duplicate; the other kinds have none.
\<close>

datatype patch_result = Patched STrip | Unpatchable string

text \<open>Modelled from the spec: a patch applied to the blocks of one day of the trip.\<close>

definition mapDay :: "nat \<Rightarrow> (SBlock list \<Rightarrow> SBlock list) \<Rightarrow> SDay list \<Rightarrow> SDay list" where
  "mapDay i f ds = map (\<lambda>(k, d). if k = i then d\<lparr>sd_blocks := f (sd_blocks d)\<rparr> else d) (enumerate 0 ds)"

text \<open>
  Modelled from the spec: auto-patch by violation kind; an overlap shifts the blocks of its
  day, a duplicate drops the later blocks trip-wide.
\<close>

fun autoPatch :: "violation \<Rightarrow> STrip \<Rightarrow> patch_result" where
  "autoPatch (Overlap i) trp = Patched (trp\<lparr>st_days := mapDay i shiftDay (st_days trp)\<rparr>)"
| "autoPatch (DuplicatePOI pid) trp = Patched (trp\<lparr>st_days := dropDuplicates [] (st_days trp)\<rparr>)"
| "autoPatch (OverCap i) trp = Unpatchable ''per-day cap exceeded''"
| "autoPatch (OutsideHours i k) trp = Unpatchable ''block outside opening hours''"
| "autoPatch (LeadTime i k) trp = Unpatchable ''booking lead time not met''"
| "autoPatch (MissingField i k) trp = Unpatchable ''required field missing''"

text \<open>
  Modelled from the spec: one pass of patches over the violations found, in their order:
  the trip as patched so far, the violations patched and the reasons of the unpatchable
  ones.
\<close>

fun patchAll :: "violation list \<Rightarrow> STrip \<Rightarrow> violation list \<Rightarrow> string list \<Rightarrow>
    STrip \<times> violation list \<times> string list" where
  "patchAll [] trp fixed reasons = (trp, fixed, reasons)"
| "patchAll (v # vs) trp fixed reasons =
     (case autoPatch v trp of
        Patched trp' \<Rightarrow> patchAll vs trp' (fixed @ [v]) reasons
      | Unpatchable r \<Rightarrow> patchAll vs trp fixed (reasons @ [r]))"

text \<open>
  Modelled from the spec: the entry of \<open>validation_errors\<close> that makes a patch visible to
  the caller.
\<close>

definition patchNote :: "violation \<Rightarrow> string" where
  "patchNote v = ''patched''"

text \<open>
  Modelled from the spec: the Validator and Auto-Patcher (section 4.4). A trip without
  violations is reported completed as it is. Otherwise the violations are patched in a
  single pass and the checks are run once more: the trip is completed when nothing was
  unpatchable and no violation is left, and failed otherwise; every patch and every
  unpatchable violation is recorded in \<open>validation_errors\<close>. The second component is the
  list of patches performed.
\<close>

definition validate :: "engine \<Rightarrow> STrip \<Rightarrow> STrip \<times> violation list" where
  "validate E trp =
     (let vs = violations E trp
      in if vs = [] then (trp\<lparr>st_status := Completed\<rparr>, [])
         else (let (trp', fixed, reasons) = patchAll vs trp [] [];
                   left = violations E trp'
               in if reasons = [] \<and> left = []
                  then (trp'\<lparr>st_status := Completed,
                             st_validation_errors := st_validation_errors trp @ map patchNote fixed\<rparr>,
                        fixed)
                  else (trp'\<lparr>st_status := Failed,
                             st_validation_errors :=
                               st_validation_errors trp @ map patchNote fixed @ reasons @
                               map (\<lambda>v. ''unresolved violation'') left\<rparr>,
                        fixed)))"

subsection \<open>The trip-creation operation\<close>

text \<open>
  Modelled from the spec: InputError, malformed constraints rejected before scheduling
  (section 7): here a date range that ends before it starts.
\<close>

datatype engine_error = InputError string

text \<open>
  Modelled from the spec: \<open>create(constraints, poiPool) -> Trip\<close> (section 6), the
  pipeline Constraint Resolver, Day Scheduler, Validator of section 2.
\<close>

definition create :: "engine \<Rightarrow> string \<Rightarrow> string \<Rightarrow> TripConstraints \<Rightarrow> EPOI list \<Rightarrow> engine_error + STrip" where
  "create E tid cty c pool =
     (if c_end_date c < c_start_date c then Inl (InputError ''end date before start date'')
      else (let ds = scheduleDays E c pool 0 [c_start_date c..c_end_date c] [];
                raw = \<lparr>st_id = tid, st_status = Processing, st_city = cty, st_constraints = c,
                       st_days = ds, st_validation_errors = emptyDayNotes ds\<rparr>
            in Inr (fst (validate E raw))))"

subsection \<open>A sample engine and pool\<close>

definition sampleEngine :: engine where
  "sampleEngine =
     \<lparr>en_travel = (\<lambda>prev p. case prev of None \<Rightarrow> 0 | Some q \<Rightarrow> 15),
      en_w1 = 10, en_w2 = 1 / 10, en_w3 = 1, en_gap = 10, en_default_duration = 60,
      en_window = (\<lambda>pc. (540, 1200)),
      en_count = (\<lambda>pc. case pc of Relaxed \<Rightarrow> 2 | Moderate \<Rightarrow> 3 | Packed \<Rightarrow> 5),
      en_weekday = (\<lambda>dt. nat (dt mod 7)),
      en_lead_ok = (\<lambda>start dt p. True),
      en_fields_ok = (\<lambda>b. True)\<rparr>"

text \<open>The two POIs of the first scenario of section 8 of the specification.\<close>

definition samplePoiA :: EPOI where
  "samplePoiA = \<lparr>poi_id = 1, poi_tags = [''views''], poi_duration = Some 60,
     poi_popularity = 9 / 10, poi_booking_required = False, poi_hours = replicate 7 (Window 480 1320)\<rparr>"

definition samplePoiB :: EPOI where
  "samplePoiB = \<lparr>poi_id = 2, poi_tags = [''museum''], poi_duration = Some 90,
     poi_popularity = 7 / 10, poi_booking_required = False, poi_hours = replicate 7 (Window 600 720)\<rparr>"

text \<open>A trip of three days, dates given as day numbers.\<close>

definition sampleConstraints :: TripConstraints where
  "sampleConstraints = \<lparr>c_start_date = 20442, c_end_date = 20444, c_pace = Relaxed, c_cap = 4,
     c_preferred = [], c_avoided = []\<rparr>"

text \<open>The trip that the sample engine makes from them.\<close>

definition sampleValidTrip :: STrip where
  "sampleValidTrip =
     \<lparr>st_id = ''t1'', st_status = Completed, st_city = ''NYC'', st_constraints = sampleConstraints,
      st_days =
        [\<lparr>sd_date = 20442,
          sd_blocks =
            [\<lparr>sb_day = 0, sb_start = 540, sb_end = 600, sb_poi = samplePoiA, sb_travel = 0,
              sb_note = None\<rparr>,
             \<lparr>sb_day = 0, sb_start = 625, sb_end = 715, sb_poi = samplePoiB, sb_travel = 15,
              sb_note = None\<rparr>]\<rparr>,
         \<lparr>sd_date = 20443, sd_blocks = []\<rparr>,
         \<lparr>sd_date = 20444, sd_blocks = []\<rparr>],
      st_validation_errors = [''empty day'', ''empty day'']\<rparr>"





section \<open>The API client: properties\<close>

subsection \<open>The polling loop\<close>

lemma pollLoop_invariant:
  assumes "\<And>st x. P x \<Longrightarrow> P (notify onProgress st x)" and "P s"
  shows "P (fst (snd (pollLoop server onProgress maxAttempts intervalMs attempt s lg)))"
  using assms
proof (induction server onProgress maxAttempts intervalMs attempt s lg rule: pollLoop.induct)
  case (1 server onProgress maxAttempts intervalMs attempt s lg)
  note step = "1.prems"(1) and Ps = "1.prems"(2)
  show ?case
  proof (cases "attempt < maxAttempts")
    case False
    then show ?thesis using Ps by (simp add: pollLoop.simps)
  next
    case True
    show ?thesis
    proof (cases "getTrip (server attempt)")
      case (Inl e)
      then show ?thesis using True Ps by (simp add: pollLoop.simps)
    next
      case (Inr trip)
      define s1 where "s1 = notify onProgress (status trip) s"
      have P1: "P s1"
        unfolding s1_def by (rule step) (rule Ps)
      show ?thesis
      proof (cases "status trip = ''completed'' \<or> status trip = ''failed''")
        case True
        then have "fst (snd (pollLoop server onProgress maxAttempts intervalMs attempt s lg)) = s1"
          using \<open>attempt < maxAttempts\<close> Inr unfolding s1_def
          by (auto simp add: pollLoop.simps [of server onProgress maxAttempts intervalMs attempt] Let_def)
        then show ?thesis using P1 by simp
      next
        case False
        define lg1 where "lg1 = lg\<lparr>getTrip_calls := getTrip_calls lg + 1,
                     waited_ms := waited_ms lg + intervalMs\<rparr>"
        have unfold: "pollLoop server onProgress maxAttempts intervalMs attempt s lg =
           pollLoop server onProgress maxAttempts intervalMs (Suc attempt) s1 lg1"
          using False \<open>attempt < maxAttempts\<close> Inr unfolding s1_def lg1_def
          by (simp add: pollLoop.simps [of server onProgress maxAttempts intervalMs attempt] Let_def)
        have "P (fst (snd (pollLoop server onProgress maxAttempts intervalMs (Suc attempt) s1 lg1)))"
          using False "1.IH" [OF \<open>attempt < maxAttempts\<close> Inr refl refl _ _ step] P1
          unfolding s1_def lg1_def by simp
        then show ?thesis unfolding unfold .
      qed
    qed
  qed
qed

lemma pollLoop_log_bound:
  "getTrip_calls (snd (snd (pollLoop server onProgress maxAttempts intervalMs attempt s lg)))
     \<le> getTrip_calls lg + (maxAttempts - attempt) \<and>
   waited_ms (snd (snd (pollLoop server onProgress maxAttempts intervalMs attempt s lg)))
     \<le> waited_ms lg + (maxAttempts - attempt) * intervalMs"
proof (induction server onProgress maxAttempts intervalMs attempt s lg rule: pollLoop.induct)
  case (1 server onProgress maxAttempts intervalMs attempt s lg)
  show ?case
  proof (cases "attempt < maxAttempts")
    case False
    then show ?thesis by (simp add: pollLoop.simps)
  next
    case True
    show ?thesis
    proof (cases "getTrip (server attempt)")
      case (Inl e)
      then show ?thesis using True by (simp add: pollLoop.simps)
    next
      case (Inr trip)
      show ?thesis
      proof (cases "status trip = ''completed'' \<or> status trip = ''failed''")
        case True
        then show ?thesis using \<open>attempt < maxAttempts\<close> Inr
          by (auto simp add: pollLoop.simps [of server onProgress maxAttempts intervalMs attempt] Let_def)
      next
        case False
        define lg1 where "lg1 = lg\<lparr>getTrip_calls := getTrip_calls lg + 1,
                     waited_ms := waited_ms lg + intervalMs\<rparr>"
        define res where "res = pollLoop server onProgress maxAttempts intervalMs (Suc attempt)
                     (notify onProgress (status trip) s) lg1"
        have unfold: "pollLoop server onProgress maxAttempts intervalMs attempt s lg = res"
          using False \<open>attempt < maxAttempts\<close> Inr unfolding res_def lg1_def
          by (simp add: pollLoop.simps [of server onProgress maxAttempts intervalMs attempt] Let_def)
        have ih: "getTrip_calls (snd (snd res)) \<le> getTrip_calls lg1 + (maxAttempts - Suc attempt)"
                 "waited_ms (snd (snd res)) \<le> waited_ms lg1 + (maxAttempts - Suc attempt) * intervalMs"
          using False "1.IH" [OF \<open>attempt < maxAttempts\<close> Inr refl refl]
          unfolding res_def lg1_def by simp_all
        have a1: "getTrip_calls lg1 + (maxAttempts - Suc attempt) = getTrip_calls lg + (maxAttempts - attempt)"
          using \<open>attempt < maxAttempts\<close> unfolding lg1_def by simp
        have "maxAttempts - attempt = Suc (maxAttempts - Suc attempt)"
          using \<open>attempt < maxAttempts\<close> by simp
        then have "(maxAttempts - attempt) * intervalMs = intervalMs + (maxAttempts - Suc attempt) * intervalMs"
          by (simp only: mult_Suc)
        then have a2: "waited_ms lg1 + (maxAttempts - Suc attempt) * intervalMs
              = waited_ms lg + (maxAttempts - attempt) * intervalMs"
          unfolding lg1_def by simp
        show ?thesis unfolding unfold using ih a1 a2 by simp
      qed
    qed
  qed
qed

lemma pollLoop_skip_pending:
  assumes "\<forall>j. a \<le> j \<and> j < k \<longrightarrow> pending (server j)" and "a \<le> k" and "k \<le> maxAttempts"
  shows "\<exists>s'. pollLoop server onProgress maxAttempts intervalMs a s lg =
           pollLoop server onProgress maxAttempts intervalMs k s'
             (lg\<lparr>getTrip_calls := getTrip_calls lg + (k - a),
                 waited_ms := waited_ms lg + (k - a) * intervalMs\<rparr>)"
  using assms
proof (induction "k - a" arbitrary: a s lg)
  case 0
  then have "a = k" by simp
  then show ?case by (intro exI [of _ s]) simp
next
  case (Suc n)
  then have ak: "a < k" and am: "a < maxAttempts" by simp_all
  with Suc.prems have "pending (server a)" by simp
  then obtain trip where t: "getTrip (server a) = Inr trip"
    "status trip \<noteq> ''completed''" "status trip \<noteq> ''failed''"
    by (auto simp add: pending_def split: sum.splits)
  have n: "n = k - Suc a" using Suc.hyps(2) by simp
  have ka: "k - a = Suc (k - Suc a)" using ak by simp
  define lg1 where "lg1 = lg\<lparr>getTrip_calls := getTrip_calls lg + 1,
                     waited_ms := waited_ms lg + intervalMs\<rparr>"
  have "\<exists>s'. pollLoop server onProgress maxAttempts intervalMs (Suc a)
                 (notify onProgress (status trip) s) lg1 =
           pollLoop server onProgress maxAttempts intervalMs k s'
             (lg1\<lparr>getTrip_calls := getTrip_calls lg1 + (k - Suc a),
              waited_ms := waited_ms lg1 + (k - Suc a) * intervalMs\<rparr>)"
    using Suc.prems ak by (intro Suc.hyps(1) [OF n]) auto
  then obtain s' where s': "pollLoop server onProgress maxAttempts intervalMs (Suc a)
                 (notify onProgress (status trip) s) lg1 =
           pollLoop server onProgress maxAttempts intervalMs k s'
             (lg1\<lparr>getTrip_calls := getTrip_calls lg1 + (k - Suc a),
              waited_ms := waited_ms lg1 + (k - Suc a) * intervalMs\<rparr>)"
    by blast
  have lg_eq: "lg1\<lparr>getTrip_calls := getTrip_calls lg1 + (k - Suc a),
              waited_ms := waited_ms lg1 + (k - Suc a) * intervalMs\<rparr> =
        lg\<lparr>getTrip_calls := getTrip_calls lg + (k - a),
                 waited_ms := waited_ms lg + (k - a) * intervalMs\<rparr>"
    unfolding lg1_def ka by simp
  have "pollLoop server onProgress maxAttempts intervalMs a s lg =
        pollLoop server onProgress maxAttempts intervalMs (Suc a)
                 (notify onProgress (status trip) s) lg1"
    using t am unfolding lg1_def
    by (simp add: pollLoop.simps [of server onProgress maxAttempts intervalMs a] Let_def)
  with s' lg_eq show ?case by auto
qed

lemma sublist_join:
  "e \<in> set es \<Longrightarrow> sublist e (join sep es)"
proof (induction sep es rule: join.induct)
  case (1 sep)
  then show ?case by simp
next
  case (2 sep x)
  then show ?case by simp
next
  case (3 sep x y ys)
  show ?case
  proof (cases "e = x")
    case True
    then show ?thesis by (simp add: sublist_append_rightI)
  next
    case False
    with 3 have "sublist e (join sep (y # ys))" by simp
    then have "sublist e ((x @ sep) @ join sep (y # ys))"
      by (simp only: sublist_append) simp
    then show ?thesis by simp
  qed
qed

lemma join_Nil_elems: "join sep es = [] \<Longrightarrow> e \<in> set es \<Longrightarrow> e = []"
  by (induction sep es rule: join.induct) auto

lemma failureMessage_contains:
  assumes "errors trip = Some es" and "e \<in> set es"
  shows "sublist e (failureMessage trip)"
proof (cases "join '', '' es = []")
  case True
  with assms have "e = []" by (auto dest: join_Nil_elems)
  then show ?thesis by simp
next
  case False
  with assms show ?thesis by (simp add: failureMessage_def sublist_join)
qed

lemma poll_reaches:
  assumes "\<forall>j<k. pending (server j)" and "k \<le> maxAttempts"
  shows "\<exists>s'. pollTripUntilComplete server onProgress maxAttempts intervalMs s =
           pollLoop server onProgress maxAttempts intervalMs k s'
             \<lparr>getTrip_calls = k, waited_ms = k * intervalMs\<rparr>"
proof -
  from assms have "\<forall>j. 0 \<le> j \<and> j < k \<longrightarrow> pending (server j)" by simp
  from pollLoop_skip_pending [OF this _ assms(2), of onProgress intervalMs s no_log]
  show ?thesis by (simp add: pollTripUntilComplete_def no_log_def)
qed

lemma poll_completed:
  assumes "k < maxAttempts" and "\<forall>j<k. pending (server j)"
    and "getTrip (server k) = Inr trip" and "status trip = ''completed''"
  shows "fst (pollTripUntilComplete server onProgress maxAttempts intervalMs s) = Inr trip"
    and "snd (snd (pollTripUntilComplete server onProgress maxAttempts intervalMs s)) =
           \<lparr>getTrip_calls = Suc k, waited_ms = k * intervalMs\<rparr>"
proof -
  from poll_reaches [OF assms(2), of maxAttempts onProgress intervalMs s] assms(1)
  obtain s' where "pollTripUntilComplete server onProgress maxAttempts intervalMs s =
           pollLoop server onProgress maxAttempts intervalMs k s'
             \<lparr>getTrip_calls = k, waited_ms = k * intervalMs\<rparr>" by auto
  then show "fst (pollTripUntilComplete server onProgress maxAttempts intervalMs s) = Inr trip"
    and "snd (snd (pollTripUntilComplete server onProgress maxAttempts intervalMs s)) =
           \<lparr>getTrip_calls = Suc k, waited_ms = k * intervalMs\<rparr>"
    using assms by (simp_all add: pollLoop.simps [of server onProgress maxAttempts intervalMs k] Let_def)
qed

lemma poll_failed:
  assumes "k < maxAttempts" and "\<forall>j<k. pending (server j)"
    and "getTrip (server k) = Inr trip" and "status trip = ''failed''"
  shows "fst (pollTripUntilComplete server onProgress maxAttempts intervalMs s) =
           Inl (Error (failureMessage trip))"
    and "snd (snd (pollTripUntilComplete server onProgress maxAttempts intervalMs s)) =
           \<lparr>getTrip_calls = Suc k, waited_ms = k * intervalMs\<rparr>"
proof -
  from poll_reaches [OF assms(2), of maxAttempts onProgress intervalMs s] assms(1)
  obtain s' where "pollTripUntilComplete server onProgress maxAttempts intervalMs s =
           pollLoop server onProgress maxAttempts intervalMs k s'
             \<lparr>getTrip_calls = k, waited_ms = k * intervalMs\<rparr>" by auto
  then show "fst (pollTripUntilComplete server onProgress maxAttempts intervalMs s) =
           Inl (Error (failureMessage trip))"
    and "snd (snd (pollTripUntilComplete server onProgress maxAttempts intervalMs s)) =
           \<lparr>getTrip_calls = Suc k, waited_ms = k * intervalMs\<rparr>"
    using assms by (simp_all add: pollLoop.simps [of server onProgress maxAttempts intervalMs k] Let_def)
qed

lemma poll_getTrip_throws:
  assumes "k < maxAttempts" and "\<forall>j<k. pending (server j)"
    and "getTrip (server k) = Inl e"
  shows "fst (pollTripUntilComplete server onProgress maxAttempts intervalMs s) = Inl e"
    and "snd (snd (pollTripUntilComplete server onProgress maxAttempts intervalMs s)) =
           \<lparr>getTrip_calls = Suc k, waited_ms = k * intervalMs\<rparr>"
proof -
  from poll_reaches [OF assms(2), of maxAttempts onProgress intervalMs s] assms(1)
  obtain s' where "pollTripUntilComplete server onProgress maxAttempts intervalMs s =
           pollLoop server onProgress maxAttempts intervalMs k s'
             \<lparr>getTrip_calls = k, waited_ms = k * intervalMs\<rparr>" by auto
  then show "fst (pollTripUntilComplete server onProgress maxAttempts intervalMs s) = Inl e"
    and "snd (snd (pollTripUntilComplete server onProgress maxAttempts intervalMs s)) =
           \<lparr>getTrip_calls = Suc k, waited_ms = k * intervalMs\<rparr>"
    using assms by (simp_all add: pollLoop.simps [of server onProgress maxAttempts intervalMs k] Let_def)
qed

lemma poll_timed_out:
  assumes "\<forall>j<maxAttempts. pending (server j)"
  shows "fst (pollTripUntilComplete server onProgress maxAttempts intervalMs s) =
           Inl (Error ''Trip generation timed out'')"
    and "snd (snd (pollTripUntilComplete server onProgress maxAttempts intervalMs s)) =
           \<lparr>getTrip_calls = maxAttempts, waited_ms = maxAttempts * intervalMs\<rparr>"
proof -
  from poll_reaches [OF assms, of maxAttempts onProgress intervalMs s]
  obtain s' where "pollTripUntilComplete server onProgress maxAttempts intervalMs s =
           pollLoop server onProgress maxAttempts intervalMs maxAttempts s'
             \<lparr>getTrip_calls = maxAttempts, waited_ms = maxAttempts * intervalMs\<rparr>" by auto
  then show "fst (pollTripUntilComplete server onProgress maxAttempts intervalMs s) =
           Inl (Error ''Trip generation timed out'')"
    and "snd (snd (pollTripUntilComplete server onProgress maxAttempts intervalMs s)) =
           \<lparr>getTrip_calls = maxAttempts, waited_ms = maxAttempts * intervalMs\<rparr>"
    by (simp_all add: pollLoop.simps [of server onProgress maxAttempts intervalMs maxAttempts])
qed

lemma poll_bounds:
  "getTrip_calls (snd (snd (pollTripUntilComplete server onProgress maxAttempts intervalMs s)))
     \<le> maxAttempts"
  "waited_ms (snd (snd (pollTripUntilComplete server onProgress maxAttempts intervalMs s)))
     \<le> maxAttempts * intervalMs"
  using pollLoop_log_bound [of server onProgress maxAttempts intervalMs 0 s no_log]
  by (simp_all add: pollTripUntilComplete_def no_log_def)

text \<open>What the loop returns, it returns because a poll delivered it as completed.\<close>

lemma pollLoop_returns_completed:
  "fst (pollLoop server onProgress maxAttempts intervalMs attempt s lg) = Inr trip \<Longrightarrow>
   status trip = ''completed'' \<and> (\<exists>k. attempt \<le> k \<and> k < maxAttempts \<and> getTrip (server k) = Inr trip)"
proof (induction server onProgress maxAttempts intervalMs attempt s lg rule: pollLoop.induct)
  case (1 server onProgress maxAttempts intervalMs attempt s lg)
  show ?case
  proof (cases "attempt < maxAttempts")
    case False
    then show ?thesis using "1.prems" by (simp add: pollLoop.simps)
  next
    case True
    show ?thesis
    proof (cases "getTrip (server attempt)")
      case (Inl e)
      then show ?thesis using True "1.prems" by (simp add: pollLoop.simps)
    next
      case (Inr t)
      show ?thesis
      proof (cases "status t = ''completed'' \<or> status t = ''failed''")
        case True
        then have "t = trip \<and> status t = ''completed''"
          using \<open>attempt < maxAttempts\<close> Inr "1.prems"
          by (auto simp add: pollLoop.simps [of server onProgress maxAttempts intervalMs attempt] Let_def)
        then show ?thesis using Inr \<open>attempt < maxAttempts\<close> by auto
      next
        case False
        then have "fst (pollLoop server onProgress maxAttempts intervalMs (Suc attempt)
              (notify onProgress (status t) s)
              (lg\<lparr>getTrip_calls := getTrip_calls lg + 1,
                  waited_ms := waited_ms lg + intervalMs\<rparr>)) = Inr trip"
          using \<open>attempt < maxAttempts\<close> Inr "1.prems"
          by (simp add: pollLoop.simps [of server onProgress maxAttempts intervalMs attempt] Let_def)
        with False "1.IH" [OF \<open>attempt < maxAttempts\<close> Inr refl refl]
        have "status trip = ''completed'' \<and>
          (\<exists>k. Suc attempt \<le> k \<and> k < maxAttempts \<and> getTrip (server k) = Inr trip)"
          by simp
        then show ?thesis by (meson Suc_leD)
      qed
    qed
  qed
qed

subsection \<open>Polling and editing: the claims\<close>

text \<open>
  C3. \<open>pollTripUntilComplete\<close> is a total function of the sequence of responses, so it ends
  for every such sequence. It issues at most \<open>maxAttempts\<close> (by default 60) \<open>getTrip\<close>
  calls and waits at most \<open>maxAttempts\<close> intervals. When the first poll that is not
  pending is number \<open>k < maxAttempts\<close>, it returns that poll's trip if its status is
  \<open>completed\<close>, throws an error whose message contains each of the trip's errors if its
  status is \<open>failed\<close>, and passes on the error if \<open>getTrip\<close> threw; when all
  \<open>maxAttempts\<close> polls are pending it throws \<open>Trip generation timed out\<close>.
\<close>

theorem pollTripUntilComplete_bounded:
  "(let r = pollTripUntilComplete server onProgress maxAttempts intervalMs s;
        outcome = fst r; lg = snd (snd r)
    in getTrip_calls lg \<le> maxAttempts \<and> waited_ms lg \<le> maxAttempts * intervalMs \<and>
       (\<forall>k trip. k < maxAttempts \<and> (\<forall>j<k. pending (server j)) \<and>
           getTrip (server k) = Inr trip \<and> status trip = ''completed'' \<longrightarrow>
           outcome = Inr trip \<and> getTrip_calls lg = Suc k) \<and>
       (\<forall>k trip. k < maxAttempts \<and> (\<forall>j<k. pending (server j)) \<and>
           getTrip (server k) = Inr trip \<and> status trip = ''failed'' \<longrightarrow>
           outcome = Inl (Error (failureMessage trip)) \<and> getTrip_calls lg = Suc k \<and>
           (\<forall>es e. errors trip = Some es \<and> e \<in> set es \<longrightarrow> sublist e (failureMessage trip))) \<and>
       (\<forall>k e. k < maxAttempts \<and> (\<forall>j<k. pending (server j)) \<and> getTrip (server k) = Inl e \<longrightarrow>
           outcome = Inl e \<and> getTrip_calls lg = Suc k) \<and>
       ((\<forall>j<maxAttempts. pending (server j)) \<longrightarrow>
           outcome = Inl (Error ''Trip generation timed out'') \<and> getTrip_calls lg = maxAttempts))
   \<and> default_maxAttempts = 60"
  unfolding Let_def
proof (intro conjI allI impI)
  show "default_maxAttempts = 60" by (simp add: default_maxAttempts_def)
next
  fix k trip
  assume "k < maxAttempts \<and> (\<forall>j<k. pending (server j)) \<and>
           getTrip (server k) = Inr trip \<and> status trip = ''completed''"
  then have h: "k < maxAttempts" "\<forall>j<k. pending (server j)" "getTrip (server k) = Inr trip"
    "status trip = ''completed''" by simp_all
  show "fst (pollTripUntilComplete server onProgress maxAttempts intervalMs s) = Inr trip"
    by (rule poll_completed(1) [OF h])
  show "getTrip_calls (snd (snd (pollTripUntilComplete server onProgress maxAttempts intervalMs s)))
          = Suc k"
    by (simp add: poll_completed(2) [OF h])
next
  fix k trip
  assume "k < maxAttempts \<and> (\<forall>j<k. pending (server j)) \<and>
           getTrip (server k) = Inr trip \<and> status trip = ''failed''"
  then have h: "k < maxAttempts" "\<forall>j<k. pending (server j)" "getTrip (server k) = Inr trip"
    "status trip = ''failed''" by simp_all
  show "fst (pollTripUntilComplete server onProgress maxAttempts intervalMs s)
          = Inl (Error (failureMessage trip))"
    by (rule poll_failed(1) [OF h])
  show "getTrip_calls (snd (snd (pollTripUntilComplete server onProgress maxAttempts intervalMs s)))
          = Suc k"
    by (simp add: poll_failed(2) [OF h])
  fix es e
  assume "errors trip = Some es \<and> e \<in> set es"
  then show "sublist e (failureMessage trip)"
    by (simp add: failureMessage_contains)
next
  fix k e
  assume "k < maxAttempts \<and> (\<forall>j<k. pending (server j)) \<and> getTrip (server k) = Inl e"
  then have h: "k < maxAttempts" "\<forall>j<k. pending (server j)" "getTrip (server k) = Inl e"
    by simp_all
  show "fst (pollTripUntilComplete server onProgress maxAttempts intervalMs s) = Inl e"
    by (rule poll_getTrip_throws(1) [OF h])
  show "getTrip_calls (snd (snd (pollTripUntilComplete server onProgress maxAttempts intervalMs s)))
          = Suc k"
    by (simp add: poll_getTrip_throws(2) [OF h])
next
  assume h: "\<forall>j<maxAttempts. pending (server j)"
  show "fst (pollTripUntilComplete server onProgress maxAttempts intervalMs s)
          = Inl (Error ''Trip generation timed out'')"
    by (rule poll_timed_out(1) [OF h])
  show "getTrip_calls (snd (snd (pollTripUntilComplete server onProgress maxAttempts intervalMs s)))
          = maxAttempts"
    by (simp add: poll_timed_out(2) [OF h])
qed (simp_all add: poll_bounds)

theorem pollTripUntilComplete_bounded_witness:
  "fst (pollTripUntilComplete
         (\<lambda>k. if k < 2 then respond 200 ''OK'' (sampleTrip ''processing'' None)
              else respond 200 ''OK'' (sampleTrip ''completed'' None))
         None 60 2000 ()) = Inr (sampleTrip ''completed'' None) \<and>
   fst (pollTripUntilComplete
         (\<lambda>k. if k < 1 then respond 200 ''OK'' (sampleTrip ''processing'' None)
              else respond 200 ''OK'' (sampleTrip ''failed'' (Some [''no POIs'', ''bad dates''])))
         None 60 2000 ()) = Inl (Error ''no POIs, bad dates'') \<and>
   fst (pollTripUntilComplete
         (\<lambda>k. if k < 3 then respond 200 ''OK'' (sampleTrip ''processing'' None)
              else respond 500 ''Internal Server Error'' (sampleTrip ''completed'' None))
         None 60 2000 ()) = Inl (Error ''Failed to get trip: Internal Server Error'') \<and>
   fst (pollTripUntilComplete (\<lambda>k. respond 200 ''OK'' (sampleTrip ''processing'' None))
         None 60 2000 ()) = Inl (Error ''Trip generation timed out'')"
proof -
  let ?p = "respond 200 ''OK'' (sampleTrip ''processing'' None)"
  have p: "pending ?p"
    by (simp add: pending_def getTrip_def respond_def ok_def response_json_def sampleTrip_def)
  let ?s1 = "\<lambda>k::nat. if k < 2 then ?p else respond 200 ''OK'' (sampleTrip ''completed'' None)"
  let ?s2 = "\<lambda>k::nat. if k < 1 then ?p
              else respond 200 ''OK'' (sampleTrip ''failed'' (Some [''no POIs'', ''bad dates'']))"
  let ?s3 = "\<lambda>k::nat. if k < 3 then ?p
              else respond 500 ''Internal Server Error'' (sampleTrip ''completed'' None)"
  let ?s4 = "\<lambda>k::nat. ?p"
  have c1: "fst (pollTripUntilComplete ?s1 None 60 2000 ()) = Inr (sampleTrip ''completed'' None)"
    using pollTripUntilComplete_bounded [of ?s1 None 60 2000 "()", unfolded Let_def,
        THEN conjunct1, THEN conjunct2, THEN conjunct2, THEN conjunct1, rule_format,
        where k = 2 and trip = "sampleTrip ''completed'' None"] p
    by (simp add: getTrip_def respond_def ok_def response_json_def sampleTrip_def)
  have c2: "fst (pollTripUntilComplete ?s2 None 60 2000 ()) = Inl (Error ''no POIs, bad dates'')"
    using pollTripUntilComplete_bounded [of ?s2 None 60 2000 "()", unfolded Let_def,
        THEN conjunct1, THEN conjunct2, THEN conjunct2, THEN conjunct2, THEN conjunct1,
        rule_format,
        where k = 1 and trip = "sampleTrip ''failed'' (Some [''no POIs'', ''bad dates''])"] p
    by (simp add: getTrip_def respond_def ok_def response_json_def sampleTrip_def
          failureMessage_def)
  have c3: "fst (pollTripUntilComplete ?s3 None 60 2000 ())
              = Inl (Error ''Failed to get trip: Internal Server Error'')"
    using pollTripUntilComplete_bounded [of ?s3 None 60 2000 "()", unfolded Let_def,
        THEN conjunct1, THEN conjunct2, THEN conjunct2, THEN conjunct2, THEN conjunct2,
        THEN conjunct1, rule_format,
        where k = 3 and e = "Error ''Failed to get trip: Internal Server Error''"] p
    by (simp add: getTrip_def respond_def ok_def response_json_def sampleTrip_def)
  have c4: "fst (pollTripUntilComplete ?s4 None 60 2000 ())
              = Inl (Error ''Trip generation timed out'')"
    using pollTripUntilComplete_bounded [of ?s4 None 60 2000 "()", unfolded Let_def,
        THEN conjunct1, THEN conjunct2, THEN conjunct2, THEN conjunct2, THEN conjunct2,
        THEN conjunct2, rule_format] p
    by simp
  from c1 c2 c3 c4 show ?thesis by simp
qed


text \<open>
  C8. \<open>editTrip\<close> throws the error \<open>Trip is still being generated. Please wait.\<close>
  exactly when the server answers with status 409, and on a response that is not ok
  (a status outside 200 to 299) it throws and returns no trip.
\<close>

theorem editTrip_busy_iff_409:
  "(editTrip fr = Inl (Error ''Trip is still being generated. Please wait.'')
      \<longleftrightarrow> (\<exists>r. fr = Resolved r \<and> http_status r = 409)) \<and>
   (\<forall>r. fr = Resolved r \<and> \<not> ok r \<longrightarrow> (\<exists>e. editTrip fr = Inl e))"
  by (cases fr) (auto simp add: editTrip_def ok_def response_json_def split: sum.splits)

theorem editTrip_busy_iff_409_witness:
  "editTrip (respond 409 ''Conflict'' (sampleTrip ''processing'' None))
     = Inl (Error ''Trip is still being generated. Please wait.'') \<and>
   editTrip (respond 500 ''Internal Server Error'' (sampleTrip ''completed'' None))
     \<noteq> Inl (Error ''Trip is still being generated. Please wait.'') \<and>
   (\<exists>e. editTrip (respond 500 ''Internal Server Error'' (sampleTrip ''completed'' None)) = Inl e)"
  using editTrip_busy_iff_409 [of "respond 409 ''Conflict'' (sampleTrip ''processing'' None)"]
    editTrip_busy_iff_409 [of "respond 500 ''Internal Server Error'' (sampleTrip ''completed'' None)"]
  by (simp add: respond_def ok_def)

section \<open>The trip converter: properties\<close>

lemma convertDay_date: "fd_date (convertDay d) = date d"
  by (simp add: convertDay_def split: option.splits)

lemma convert_days_length:
  "length (ft_days (convertBackendTripToFrontend t)) = (case days t of None \<Rightarrow> 0 | Some ds \<Rightarrow> length ds)"
  by (simp add: convertBackendTripToFrontend_def split: option.splits)

text \<open>
  C7. \<open>convertDay\<close> is total and keeps the date of the day. Its activities are the converted
  blocks when the day has blocks, else the activities the day already has, else the empty
  list. \<open>convertBackendTripToFrontend\<close> is total as well: it yields no days when \<open>days\<close> is
  not an array and otherwise one day per backend day, in order, with the same dates, so a
  day without blocks and activities becomes an empty day and the other days are kept.
\<close>

theorem convertDay_empty_day_tolerated:
  "fd_date (convertDay d) = date d \<and>
   (\<forall>bs. blocks d = Some bs \<longrightarrow> fd_activities (convertDay d) = map convertTimeBlockToActivity bs) \<and>
   (\<forall>acts. blocks d = None \<and> activities d = Some acts \<longrightarrow> fd_activities (convertDay d) = acts) \<and>
   (blocks d = None \<and> activities d = None \<longrightarrow> fd_activities (convertDay d) = []) \<and>
   (days t = None \<longrightarrow> ft_days (convertBackendTripToFrontend t) = []) \<and>
   (\<forall>ds. days t = Some ds \<longrightarrow>
      ft_days (convertBackendTripToFrontend t) = map convertDay ds \<and>
      length (ft_days (convertBackendTripToFrontend t)) = length ds \<and>
      map fd_date (ft_days (convertBackendTripToFrontend t)) = map date ds)"
  by (simp add: convertDay_def convertBackendTripToFrontend_def comp_def split: option.splits)

theorem convertDay_empty_day_tolerated_witness:
  "ft_days (convertBackendTripToFrontend
     ((sampleTrip ''completed'' None)
        \<lparr>days := Some [\<lparr>date = ''2025-12-20'', blocks = None, activities = None\<rparr>,
                        \<lparr>date = ''2025-12-21'',
                         blocks = Some [sampleBlock ''12:30'' (samplePOI ''Joe's Pizza'' [''Pizza''])],
                         activities = None\<rparr>]\<rparr>))
   = [\<lparr>fd_date = ''2025-12-20'', fd_activities = []\<rparr>,
      \<lparr>fd_date = ''2025-12-21'',
       fd_activities = [\<lparr>a_time = ''12:30'', a_name = ''Joe's Pizza'', a_type = ''food'',
          a_lat = 40, a_lon = -74, a_duration_min = 60, a_booking_required = Some False,
          a_booking_url = None, a_notes = None\<rparr>]\<rparr>] \<and>
   ft_days (convertBackendTripToFrontend ((sampleTrip ''completed'' None)\<lparr>days := None\<rparr>)) = []"
proof -
  let ?d1 = "\<lparr>date = ''2025-12-20'', blocks = None, activities = None\<rparr>"
  let ?b = "sampleBlock ''12:30'' (samplePOI ''Joe's Pizza'' [''Pizza''])"
  let ?d2 = "\<lparr>date = ''2025-12-21'', blocks = Some [?b], activities = None\<rparr>"
  let ?t = "(sampleTrip ''completed'' None)\<lparr>days := Some [?d1, ?d2]\<rparr>"
  let ?u = "(sampleTrip ''completed'' None)\<lparr>days := None\<rparr>"
  have ty: "getActivityType (samplePOI ''Joe's Pizza'' [''Pizza'']) = ''food''"
    by code_simp
  have a: "fd_date (convertDay ?d1) = ''2025-12-20'' \<and> fd_activities (convertDay ?d1) = []"
    using convertDay_empty_day_tolerated [of ?d1 ?t] by simp
  have b: "fd_date (convertDay ?d2) = ''2025-12-21'' \<and>
           fd_activities (convertDay ?d2) = [convertTimeBlockToActivity ?b]"
    using convertDay_empty_day_tolerated [of ?d2 ?t] by simp
  have c: "ft_days (convertBackendTripToFrontend ?t) = [convertDay ?d1, convertDay ?d2]"
    using convertDay_empty_day_tolerated [of ?d1 ?t] by simp
  have d: "ft_days (convertBackendTripToFrontend ?u) = []"
    using convertDay_empty_day_tolerated [of ?d1 ?u] by simp
  have e: "convertTimeBlockToActivity ?b = \<lparr>a_time = ''12:30'', a_name = ''Joe's Pizza'', a_type = ''food'',
          a_lat = 40, a_lon = -74, a_duration_min = 60, a_booking_required = Some False,
          a_booking_url = None, a_notes = None\<rparr>"
    using ty by (simp add: convertTimeBlockToActivity_def sampleBlock_def samplePOI_def orUndefined_def)
  have eqd: "\<And>x y z. fd_date x = y \<and> fd_activities x = z \<Longrightarrow> x = \<lparr>fd_date = y, fd_activities = z\<rparr>"
    by auto
  show ?thesis
    using eqd [OF a] eqd [OF b] c d e by simp
qed

section \<open>The trip hook: properties\<close>

text \<open>The outcome of the polling depends on the responses only.\<close>

lemma pollLoop_outcome_indep:
  "fst (pollLoop server onProgress maxAttempts intervalMs attempt s lg) =
   fst (pollLoop server onProgress' maxAttempts intervalMs' attempt s' lg')"
proof (induction server onProgress maxAttempts intervalMs attempt s lg arbitrary: s' lg'
       rule: pollLoop.induct)
  case (1 server onProgress maxAttempts intervalMs attempt s lg)
  show ?case
  proof (cases "attempt < maxAttempts")
    case False
    then show ?thesis by (simp add: pollLoop.simps)
  next
    case True
    show ?thesis
    proof (cases "getTrip (server attempt)")
      case (Inl e)
      then show ?thesis using True by (simp add: pollLoop.simps)
    next
      case (Inr t)
      show ?thesis
      proof (cases "status t = ''completed'' \<or> status t = ''failed''")
        case True
        then show ?thesis using \<open>attempt < maxAttempts\<close> Inr
          by (auto simp add: pollLoop.simps [of server _ maxAttempts _ attempt] Let_def)
      next
        case False
        then show ?thesis
          using \<open>attempt < maxAttempts\<close> Inr "1.IH" [OF \<open>attempt < maxAttempts\<close> Inr refl refl]
          by (simp add: pollLoop.simps [of server _ maxAttempts _ attempt] Let_def)
      qed
    qed
  qed
qed

lemma poll_outcome_indep:
  "fst (pollTripUntilComplete server onProgress maxAttempts intervalMs s) =
   fst (pollTripUntilComplete server onProgress' maxAttempts intervalMs' s')"
  unfolding pollTripUntilComplete_def by (rule pollLoop_outcome_indep)

text \<open>The progress callbacks of the hook touch the progress text only.\<close>

lemma poll_hook_state:
  "\<exists>p. fst (snd (pollTripUntilComplete server (Some (onProgressText text)) maxAttempts intervalMs h))
        = h\<lparr>h_progress := p\<rparr>"
proof -
  have "(\<lambda>x. \<exists>p. x = h\<lparr>h_progress := p\<rparr>)
          (fst (snd (pollLoop server (Some (onProgressText text)) maxAttempts intervalMs 0 h no_log)))"
  proof (rule pollLoop_invariant)
    fix st x
    assume "\<exists>p. x = h\<lparr>h_progress := p\<rparr>"
    then obtain p where "x = h\<lparr>h_progress := p\<rparr>" ..
    then show "\<exists>p. notify (Some (onProgressText text)) st x = h\<lparr>h_progress := p\<rparr>"
      by (cases "st = ''processing''") (auto simp add: notify_def onProgressText_def)
  next
    have "h = h\<lparr>h_progress := h_progress h\<rparr>" by simp
    then show "\<exists>p. h = h\<lparr>h_progress := p\<rparr>" ..
  qed
  then show ?thesis by (simp add: pollTripUntilComplete_def)
qed

lemma modifyTrip_eq:
  "modifyTrip editResponse server h =
     (case h_trip h of
        None \<Rightarrow> h\<lparr>h_error := Some ''No trip to modify''\<rparr>
      | Some t \<Rightarrow>
          (case editOutcome editResponse server of
             Inl e \<Rightarrow> h\<lparr>h_isLoading := False, h_error := Some (message e), h_progress := None\<rparr>
           | Inr bt \<Rightarrow> h\<lparr>h_trip := Some (convertBackendTripToFrontend bt), h_isLoading := False,
                        h_error := None, h_progress := None\<rparr>))"
proof (cases "h_trip h")
  case None
  then show ?thesis by (simp add: modifyTrip_def)
next
  case (Some t)
  show ?thesis
  proof (cases "editTrip editResponse")
    case (Inl e)
    then show ?thesis using Some
      by (simp add: modifyTrip_def editOutcome_def catchError_def)
  next
    case (Inr bt)
    show ?thesis
    proof (cases "status bt = ''processing''")
      case False
      then show ?thesis using Some Inr
        by (simp add: modifyTrip_def editOutcome_def)
    next
      case True
      define h3 where "h3 = h\<lparr>h_isLoading := True, h_error := None,
                              h_progress := Some ''Updating itinerary...''\<rparr>"
      define r where "r = pollTripUntilComplete server
                            (Some (onProgressText ''Applying your changes...''))
                            default_maxAttempts default_intervalMs h3"
      obtain p where p: "fst (snd r) = h3\<lparr>h_progress := p\<rparr>"
        unfolding r_def using poll_hook_state by blast
      have o: "editOutcome editResponse server = fst r"
        unfolding r_def editOutcome_def using Inr True
        by (simp add: poll_outcome_indep [of server None _ _ "()"
                        "Some (onProgressText ''Applying your changes...'')" _ h3])
      have m: "modifyTrip editResponse server h =
                 (case r of
                    (Inl err, h4, lg) \<Rightarrow> catchError err h4
                  | (Inr completedTrip, h4, lg) \<Rightarrow>
                      h4\<lparr>h_trip := Some (convertBackendTripToFrontend completedTrip),
                         h_progress := None\<rparr>)\<lparr>h_isLoading := False\<rparr>"
        unfolding r_def h3_def using Some Inr True by (simp add: modifyTrip_def)
      obtain out h4 lg where r: "r = (out, h4, lg)" by (cases r) auto
      with p have h4: "h4 = h3\<lparr>h_progress := p\<rparr>" by simp
      show ?thesis
        unfolding m o r using Some
        by (cases out) (simp_all add: h4 h3_def catchError_def)
    qed
  qed
qed


lemma editOutcome_failure:
  assumes "editTrip editResponse = Inl e \<or>
           (\<exists>bt. editTrip editResponse = Inr bt \<and> status bt = ''processing'' \<and>
              fst (pollTripUntilComplete server onProgress default_maxAttempts default_intervalMs s)
                = Inl e)"
  shows "editOutcome editResponse server = Inl e"
  using assms
    poll_outcome_indep [of server None default_maxAttempts default_intervalMs "()"
      onProgress default_intervalMs s]
  by (auto simp add: editOutcome_def)

text \<open>
  C2. When the edit fails, that is, when \<open>editTrip\<close> throws or it answers \<open>processing\<close> and
  the polling that follows throws, \<open>modifyTrip\<close> leaves the trip of the hook as it was
  before the call: the state afterwards is the state before with the error message set,
  the progress text cleared and the loading flag back at false, so that from an idle hook
  only the error and the progress change. The trip of the hook changes only when the
  \<open>try\<close> block ran to its end, and then to the converted trip the server delivered.
\<close>

theorem modifyTrip_failure_keeps_trip:
  "(\<forall>t e. h_trip h = Some t \<and>
       (editTrip editResponse = Inl e \<or>
        (\<exists>bt. editTrip editResponse = Inr bt \<and> status bt = ''processing'' \<and>
           fst (pollTripUntilComplete server onProgress default_maxAttempts default_intervalMs s)
             = Inl e)) \<longrightarrow>
       h_trip (modifyTrip editResponse server h) = Some t \<and>
       modifyTrip editResponse server h =
         h\<lparr>h_isLoading := False, h_error := Some (message e), h_progress := None\<rparr> \<and>
       (\<not> h_isLoading h \<longrightarrow>
          modifyTrip editResponse server h = h\<lparr>h_error := Some (message e), h_progress := None\<rparr>)) \<and>
   (h_trip (modifyTrip editResponse server h) \<noteq> h_trip h \<longrightarrow>
      (\<exists>bt. editOutcome editResponse server = Inr bt \<and>
         modifyTrip editResponse server h =
           h\<lparr>h_trip := Some (convertBackendTripToFrontend bt), h_isLoading := False,
              h_error := None, h_progress := None\<rparr>))"
proof (intro conjI allI impI)
  fix t e
  assume a: "h_trip h = Some t \<and>
       (editTrip editResponse = Inl e \<or>
        (\<exists>bt. editTrip editResponse = Inr bt \<and> status bt = ''processing'' \<and>
           fst (pollTripUntilComplete server onProgress default_maxAttempts default_intervalMs s)
             = Inl e))"
  then have o: "editOutcome editResponse server = Inl e"
    using editOutcome_failure [of editResponse e server onProgress s] by blast
  from a have t: "h_trip h = Some t" by simp
  show eq: "modifyTrip editResponse server h =
         h\<lparr>h_isLoading := False, h_error := Some (message e), h_progress := None\<rparr>"
    by (simp add: modifyTrip_eq o t)
  show "h_trip (modifyTrip editResponse server h) = Some t"
    by (simp add: eq t)
  assume "\<not> h_isLoading h"
  then have "h\<lparr>h_isLoading := False\<rparr> = h" by simp
  then show "modifyTrip editResponse server h = h\<lparr>h_error := Some (message e), h_progress := None\<rparr>"
    unfolding eq by (metis hook_state.update_convs(2) hook_state.surjective hook_state.update_convs(3,4))
next
  assume c: "h_trip (modifyTrip editResponse server h) \<noteq> h_trip h"
  show "\<exists>bt. editOutcome editResponse server = Inr bt \<and>
         modifyTrip editResponse server h =
           h\<lparr>h_trip := Some (convertBackendTripToFrontend bt), h_isLoading := False,
              h_error := None, h_progress := None\<rparr>"
  proof (cases "h_trip h")
    case None
    with c show ?thesis by (simp add: modifyTrip_eq)
  next
    case (Some t)
    show ?thesis
    proof (cases "editOutcome editResponse server")
      case (Inl e)
      with c Some show ?thesis by (simp add: modifyTrip_eq)
    next
      case (Inr bt)
      with Some show ?thesis by (simp add: modifyTrip_eq)
    qed
  qed
qed

theorem modifyTrip_failure_keeps_trip_witness:
  "modifyTrip (respond 409 ''Conflict'' (sampleTrip ''processing'' None))
     (\<lambda>k. respond 200 ''OK'' (sampleTrip ''completed'' None)) sampleHook
   = sampleHook\<lparr>h_error := Some ''Trip is still being generated. Please wait.''\<rparr> \<and>
   modifyTrip (respond 200 ''OK'' (sampleTrip ''processing'' None))
     (\<lambda>k. respond 200 ''OK'' (sampleTrip ''failed'' (Some [''no museum'']))) sampleHook
   = sampleHook\<lparr>h_error := Some ''no museum''\<rparr>"
proof -
  let ?e1 = "respond 409 ''Conflict'' (sampleTrip ''processing'' None)"
  let ?s1 = "\<lambda>k::nat. respond 200 ''OK'' (sampleTrip ''completed'' None)"
  let ?e2 = "respond 200 ''OK'' (sampleTrip ''processing'' None)"
  let ?s2 = "\<lambda>k::nat. respond 200 ''OK'' (sampleTrip ''failed'' (Some [''no museum'']))"
  have p: "fst (pollTripUntilComplete ?s2 (None :: (string \<Rightarrow> unit \<Rightarrow> unit) option)
                  default_maxAttempts default_intervalMs ()) = Inl (Error ''no museum'')"
    using poll_failed(1) [of 0 default_maxAttempts ?s2 "sampleTrip ''failed'' (Some [''no museum''])"
            None default_intervalMs "()"]
    by (simp add: default_maxAttempts_def getTrip_def respond_def ok_def response_json_def
          sampleTrip_def failureMessage_def)
  have a: "modifyTrip ?e1 ?s1 sampleHook
             = sampleHook\<lparr>h_error := Some ''Trip is still being generated. Please wait.''\<rparr>"
    using modifyTrip_failure_keeps_trip [of sampleHook ?e1 ?s1 "None :: (string \<Rightarrow> unit \<Rightarrow> unit) option" "()",
        THEN conjunct1, rule_format,
        where e = "Error ''Trip is still being generated. Please wait.''"]
    by (simp add: sampleHook_def editTrip_def respond_def ok_def)
  have b: "modifyTrip ?e2 ?s2 sampleHook = sampleHook\<lparr>h_error := Some ''no museum''\<rparr>"
    using modifyTrip_failure_keeps_trip [of sampleHook ?e2 ?s2 "None :: (string \<Rightarrow> unit \<Rightarrow> unit) option" "()",
        THEN conjunct1, rule_format, where e = "Error ''no museum''"] p
    by (simp add: sampleHook_def editTrip_def respond_def ok_def response_json_def sampleTrip_def)
  from a b show ?thesis by simp
qed

section \<open>The calendar export: properties\<close>

lemma replaceAll_Nil: "replaceAll c r [] = []"
  by (simp add: replaceAll_def)

lemma replaceAll_Cons: "replaceAll c r (x # xs) = (if x = c then r else [x]) @ replaceAll c r xs"
  by (simp add: replaceAll_def)

lemma replaceAll_append: "replaceAll c r (xs @ ys) = replaceAll c r xs @ replaceAll c r ys"
  by (simp add: replaceAll_def)

lemma sanitize_char:
  "replaceAll newline [backslash, CHR ''n'']
     (replaceAll (CHR '';'') [backslash, CHR '';'']
       (replaceAll (CHR '','') [backslash, CHR '','']
         (replaceAll backslash [backslash, backslash] [c]))) = escapeChar c"
  by (simp add: replaceAll_Cons replaceAll_Nil escapeChar_def backslash_def newline_def)

lemma sanitize_escape: "sanitize (Some s) = concat (map escapeChar s)"
proof -
  have "replaceAll newline [backslash, CHR ''n'']
     (replaceAll (CHR '';'') [backslash, CHR '';'']
       (replaceAll (CHR '','') [backslash, CHR '','']
         (replaceAll backslash [backslash, backslash] s))) = concat (map escapeChar s)"
  proof (induction s)
    case Nil
    then show ?case by (simp add: replaceAll_Nil)
  next
    case (Cons c s)
    have "replaceAll newline [backslash, CHR ''n'']
     (replaceAll (CHR '';'') [backslash, CHR '';'']
       (replaceAll (CHR '','') [backslash, CHR '','']
         (replaceAll backslash [backslash, backslash] ([c] @ s)))) =
       escapeChar c @ concat (map escapeChar s)"
      unfolding replaceAll_append using Cons sanitize_char [of c] by simp
    then show ?case by simp
  qed
  then show ?thesis by (simp add: sanitize_def)
qed

lemma newline_notin_escapeChar: "newline \<notin> set (escapeChar c)"
  by (simp add: escapeChar_def backslash_def newline_def)

lemma newline_notin_sanitize: "newline \<notin> set (sanitize v)"
proof (cases v)
  case None
  then show ?thesis by (simp add: sanitize_def)
next
  case (Some s)
  then show ?thesis by (simp add: sanitize_escape newline_notin_escapeChar)
qed

lemma map_enumerate_snd: "map (\<lambda>(i, x). g x) (enumerate n xs) = map g xs"
  by (induction xs arbitrary: n) simp_all

lemma length_mapIndexed: "length (mapIndexed f xs) = length xs"
  by (simp add: mapIndexed_def)

lemma nth_mapIndexed: "i < length xs \<Longrightarrow> mapIndexed f xs ! i = f (xs ! i) i"
  by (simp add: mapIndexed_def nth_enumerate_eq)

lemma map_length_mapIndexed:
  "map length (mapIndexed (\<lambda>x i. mapIndexed (f x i) (g x)) xs) = map (\<lambda>x. length (g x)) xs"
  by (rule nth_equalityI) (simp_all add: length_mapIndexed nth_mapIndexed)

lemma nth_concat_offset:
  "i < length xss \<Longrightarrow> j < length (xss ! i) \<Longrightarrow>
   concat xss ! (sum_list (map length (take i xss)) + j) = xss ! i ! j"
proof (induction xss arbitrary: i)
  case Nil
  then show ?case by simp
next
  case (Cons xs xss)
  show ?case
  proof (cases i)
    case 0
    with Cons.prems show ?thesis by (simp add: nth_append)
  next
    case (Suc k)
    with Cons have "concat xss ! (sum_list (map length (take k xss)) + j) = xss ! k ! j"
      by simp
    with Suc show ?thesis by (simp add: nth_append add.assoc)
  qed
qed

lemma icsEvents_length:
  "length (icsEvents pf stamp trp) = sum_list (map (\<lambda>day. length (td_activities day)) (t_days trp))"
  by (simp add: icsEvents_def length_concat map_length_mapIndexed)

lemma icsEvents_nth:
  assumes "i < length (t_days trp)" and "j < length (td_activities (t_days trp ! i))"
  shows "icsEvents pf stamp trp !
           (sum_list (map (\<lambda>day. length (td_activities day)) (take i (t_days trp))) + j) =
         buildEvent pf (td_activities (t_days trp ! i) ! j) (t_days trp ! i) (t_city trp) stamp
           (i * 100 + j)"
proof -
  let ?xss = "mapIndexed
       (\<lambda>day dayIndex.
          mapIndexed
            (\<lambda>activity activityIndex.
               buildEvent pf activity day (t_city trp) stamp (dayIndex * 100 + activityIndex))
            (td_activities day))
       (t_days trp)"
  have len: "map length ?xss = map (\<lambda>day. length (td_activities day)) (t_days trp)"
    by (rule map_length_mapIndexed)
  have i: "i < length ?xss" using assms(1) by (simp add: length_mapIndexed)
  have xi: "?xss ! i = mapIndexed
            (\<lambda>activity activityIndex.
               buildEvent pf activity (t_days trp ! i) (t_city trp) stamp (i * 100 + activityIndex))
            (td_activities (t_days trp ! i))"
    using assms(1) by (simp add: nth_mapIndexed)
  have j: "j < length (?xss ! i)" using assms(2) by (simp add: xi length_mapIndexed)
  have "concat ?xss ! (sum_list (map length (take i ?xss)) + j) = ?xss ! i ! j"
    by (rule nth_concat_offset [OF i j])
  moreover have "map length (take i ?xss) = map (\<lambda>day. length (td_activities day)) (take i (t_days trp))"
    using len by (simp add: take_map [symmetric])
  ultimately show ?thesis
    using assms(2) by (simp add: icsEvents_def xi nth_mapIndexed)
qed

lemma descriptionParts_nonempty: "descriptionParts activity \<noteq> []"
  by (simp add: descriptionParts_def filterBoolean_def)

lemma eventLines_eq:
  "eventLines pf activity day cty stamp index =
     [''BEGIN:VEVENT'',
      ''UID:'' @ stamp @ ''-'' @ natToString index @ ''@wandergenie'',
      ''DTSTAMP:'' @ stamp,
      ''DTSTART:'' @ formatICSDate (eventStart pf activity day),
      ''DTEND:'' @ formatICSDate (eventEnd pf activity day),
      ''SUMMARY:'' @ concat (map escapeChar (ta_name activity)),
      ''LOCATION:'' @ concat (map escapeChar (ta_name activity @ '', '' @ cty)),
      ''DESCRIPTION:'' @ concat (map escapeChar (join '' | '' (descriptionParts activity)))] @
     (case ta_booking_url activity of
        None \<Rightarrow> []
      | Some u \<Rightarrow> if u = [] then [] else [''URL:'' @ concat (map escapeChar u)]) @
     [''END:VEVENT'']"
  by (simp add: eventLines_def filterBoolean_def descriptionParts_nonempty sanitize_escape truthy_def
        split: option.splits)

subsection \<open>The output read line by line\<close>

lemma split_no_sep: "sep \<notin> set x \<Longrightarrow> split sep x = [x]"
  by (induction x) auto

lemma split_append_sep:
  "sep \<notin> set x \<Longrightarrow> split sep (x @ sep # rest) = x # split sep rest"
  by (induction x) auto

lemma split_join:
  "xs \<noteq> [] \<Longrightarrow> \<forall>x\<in>set xs. sep \<notin> set x \<Longrightarrow> split sep (join [sep] xs) = xs"
proof (induction "[sep]" xs rule: join.induct)
  case 1
  then show ?case by simp
next
  case (2 x)
  then show ?case by (simp add: split_no_sep)
next
  case (3 x y ys)
  then show ?case by (simp add: split_append_sep)
qed

lemma join_append:
  "xs \<noteq> [] \<Longrightarrow> ys \<noteq> [] \<Longrightarrow> join sep (xs @ ys) = join sep xs @ sep @ join sep ys"
proof (induction sep xs rule: join.induct)
  case (1 sep)
  then show ?case by simp
next
  case (2 sep x)
  then show ?case by (cases ys) simp_all
next
  case (3 sep x y zs)
  then show ?case by simp
qed

lemma join_Cons: "ys \<noteq> [] \<Longrightarrow> join sep (x # ys) = x @ sep @ join sep ys"
  by (cases ys) simp_all

lemma join_map_join:
  "\<forall>ls\<in>set lss. ls \<noteq> [] \<Longrightarrow> join sep (map (join sep) lss) = join sep (concat lss)"
proof (induction lss)
  case Nil
  then show ?case by simp
next
  case (Cons ls lss)
  show ?case
  proof (cases "lss = []")
    case True
    then show ?thesis by simp
  next
    case False
    then obtain l ls' where "lss = l # ls'" by (cases lss) auto
    with Cons.prems have "concat lss \<noteq> []" by auto
    with Cons False show ?thesis
      by (simp add: join_Cons join_append)
  qed
qed

lemma digitChar_isDigit: "k < 10 \<Longrightarrow> isDigit (digitChar k)"
  by (simp add: isDigit_def digitChar_def)

lemma natToString_digits: "c \<in> set (natToString n) \<Longrightarrow> isDigit c"
proof (induction n rule: natToString.induct)
  case (1 n)
  show ?case
  proof (cases "n < 10")
    case True
    with "1.prems" show ?thesis
      by (simp add: natToString.simps [of n] digitChar_isDigit)
  next
    case False
    with "1.prems" have "c \<in> set (natToString (n div 10)) \<or> c = digitChar (n mod 10)"
      by (auto simp add: natToString.simps [of n])
    with False "1.IH" show ?thesis
      by (auto simp add: digitChar_isDigit)
  qed
qed

lemma isDigit_not_newline: "isDigit c \<Longrightarrow> c \<noteq> newline"
  by (auto simp add: isDigit_def newline_def)

lemma newline_notin_natToString: "newline \<notin> set (natToString n)"
  using natToString_digits isDigit_not_newline by blast

lemma newline_notin_intToString: "newline \<notin> set (intToString i)"
  using newline_notin_natToString by (auto simp add: intToString_def newline_def)

lemma newline_notin_pad: "newline \<notin> set (pad v)"
  using newline_notin_intToString [of v] by (auto simp add: pad_def Let_def newline_def)

lemma newline_notin_formatICSDate: "newline \<notin> set (formatICSDate dt)"
proof (cases dt)
  case None
  then show ?thesis by (simp add: formatICSDate_def newline_def)
next
  case (Some t)
  obtain y m d hh mm ss where f: "dateFields t = (y, m, d, hh, mm, ss)"
    by (cases "dateFields t") auto
  have "CHR ''T'' \<noteq> newline" "CHR ''Z'' \<noteq> newline" by (simp_all add: newline_def)
  then show ?thesis
    using Some f newline_notin_intToString newline_notin_pad
    by (simp add: formatICSDate_def)
qed

lemma newline_notin_concat_escape: "newline \<notin> set (concat (map escapeChar s))"
  by (simp add: newline_notin_escapeChar)

lemma eventLines_no_newline:
  assumes "l \<in> set (eventLines pf activity day cty (formatICSDate dt) index)"
  shows "newline \<notin> set l"
proof -
  have lit: "newline \<notin> set ''BEGIN:VEVENT''" "newline \<notin> set ''UID:''" "newline \<notin> set ''-''"
    "newline \<notin> set ''@wandergenie''" "newline \<notin> set ''DTSTAMP:''" "newline \<notin> set ''DTSTART:''"
    "newline \<notin> set ''DTEND:''" "newline \<notin> set ''SUMMARY:''" "newline \<notin> set ''LOCATION:''"
    "newline \<notin> set ''DESCRIPTION:''" "newline \<notin> set ''URL:''" "newline \<notin> set ''END:VEVENT''"
    by (simp_all add: newline_def)
  from assms show ?thesis
    unfolding eventLines_eq
    using lit newline_notin_formatICSDate newline_notin_natToString newline_notin_concat_escape
      newline_notin_escapeChar
    by (auto simp del: set_concat split: option.splits if_splits)
qed

lemma eventLines_nonempty: "eventLines pf activity day cty stamp index \<noteq> []"
  by (simp add: eventLines_eq)

lemma eventLines_count_begin:
  "count_list (eventLines pf activity day cty stamp index) ''BEGIN:VEVENT'' = 1"
  by (simp add: eventLines_eq split: option.splits)

lemma map_mapIndexed: "map h (mapIndexed f xs) = mapIndexed (\<lambda>x i. h (f x i)) xs"
  by (simp add: mapIndexed_def case_prod_beta)

lemma icsEvents_eq_lines:
  "icsEvents pf stamp trp = map (join [newline]) (icsEventLines pf stamp trp)"
  unfolding icsEvents_def icsEventLines_def map_concat map_mapIndexed buildEvent_def ..

lemma icsEventLines_length:
  "length (icsEventLines pf stamp trp) =
     sum_list (map (\<lambda>day. length (td_activities day)) (t_days trp))"
  using icsEvents_length [of pf stamp trp] by (simp add: icsEvents_eq_lines)

lemma in_mapIndexed: "y \<in> set (mapIndexed f xs) \<Longrightarrow> \<exists>x i. y = f x i"
  by (auto simp add: mapIndexed_def)

lemma icsEventLines_member:
  assumes "ls \<in> set (icsEventLines pf stamp trp)"
  shows "\<exists>activity day index. ls = eventLines pf activity day (t_city trp) stamp index"
proof -
  from assms obtain evs where evs: "ls \<in> set evs"
    "evs \<in> set (mapIndexed
       (\<lambda>day dayIndex.
          mapIndexed
            (\<lambda>activity activityIndex.
               eventLines pf activity day (t_city trp) stamp (dayIndex * 100 + activityIndex))
            (td_activities day))
       (t_days trp))"
    by (auto simp add: icsEventLines_def)
  from in_mapIndexed [OF evs(2)] obtain day dayIndex where
    "evs = mapIndexed
            (\<lambda>activity activityIndex.
               eventLines pf activity day (t_city trp) stamp (dayIndex * 100 + activityIndex))
            (td_activities day)" by blast
  with evs(1) in_mapIndexed [of ls] show ?thesis by blast
qed

lemma count_list_concat_ones:
  "\<forall>ls\<in>set lss. count_list ls x = 1 \<Longrightarrow> count_list (concat lss) x = length lss"
  by (induction lss) simp_all

lemma generateICS_lines:
  "split newline (generateICS pf now trp) =
     [''BEGIN:VCALENDAR'', ''VERSION:2.0'', ''PRODID:-//WanderGenie//Trip Export//EN'',
      ''CALSCALE:GREGORIAN''] @
     concat (icsEventLines pf (formatICSDate (Some now)) trp) @ [''END:VCALENDAR'']"
proof -
  define stamp where "stamp = formatICSDate (Some now)"
  define evs where "evs = icsEventLines pf stamp trp"
  define h1 h2 h3 h4 ftr where "h1 = ''BEGIN:VCALENDAR''" and "h2 = ''VERSION:2.0''"
    and "h3 = ''PRODID:-//WanderGenie//Trip Export//EN''" and "h4 = ''CALSCALE:GREGORIAN''"
    and "ftr = ''END:VCALENDAR''"
  define lss where "lss = [[h1], [h2], [h3], [h4]] @ evs @ [[ftr]]"
  have "\<forall>ls\<in>set evs. ls \<noteq> []"
    unfolding evs_def using icsEventLines_member [of _ pf stamp trp] eventLines_nonempty by metis
  then have ne: "\<forall>ls\<in>set lss. ls \<noteq> []"
    unfolding lss_def by auto
  have m: "map (join [newline]) lss = [h1, h2, h3, h4] @ icsEvents pf stamp trp @ [ftr]"
    unfolding lss_def evs_def icsEvents_eq_lines by simp
  have c: "concat lss = [h1, h2, h3, h4] @ concat evs @ [ftr]"
    unfolding lss_def by simp
  have "generateICS pf now trp = join [newline] (map (join [newline]) lss)"
    unfolding m generateICS_def Let_def stamp_def h1_def h2_def h3_def h4_def ftr_def ..
  also have "\<dots> = join [newline] (concat lss)"
    by (rule join_map_join [OF ne])
  finally have g: "generateICS pf now trp = join [newline] ([h1, h2, h3, h4] @ concat evs @ [ftr])"
    unfolding c .
  have lit: "newline \<notin> set h1" "newline \<notin> set h2" "newline \<notin> set h3" "newline \<notin> set h4"
    "newline \<notin> set ftr"
    unfolding h1_def h2_def h3_def h4_def ftr_def by (simp_all add: newline_def)
  have ev: "newline \<notin> set l" if "ls \<in> set evs" and "l \<in> set ls" for l ls
  proof -
    from icsEventLines_member [OF that(1) [unfolded evs_def]] obtain activity day index where
      "ls = eventLines pf activity day (t_city trp) stamp index" by blast
    with that(2) show ?thesis unfolding stamp_def using eventLines_no_newline by blast
  qed
  have nl: "\<forall>l\<in>set ([h1, h2, h3, h4] @ concat evs @ [ftr]). newline \<notin> set l"
    using lit ev by auto
  have "split newline (generateICS pf now trp) = [h1, h2, h3, h4] @ concat evs @ [ftr]"
    unfolding g by (rule split_join [OF _ nl]) simp
  then show ?thesis
    unfolding evs_def stamp_def h1_def h2_def h3_def h4_def ftr_def .
qed

lemma generateICS_count_vevents:
  "count_list (split newline (generateICS pf now trp)) ''BEGIN:VEVENT'' =
     sum_list (map (\<lambda>day. length (td_activities day)) (t_days trp))"
proof -
  have "\<forall>ls\<in>set (icsEventLines pf (formatICSDate (Some now)) trp).
          count_list ls ''BEGIN:VEVENT'' = 1"
    using icsEventLines_member [of _ pf "formatICSDate (Some now)" trp] eventLines_count_begin
    by metis
  then have "count_list (concat (icsEventLines pf (formatICSDate (Some now)) trp)) ''BEGIN:VEVENT''
               = length (icsEventLines pf (formatICSDate (Some now)) trp)"
    by (rule count_list_concat_ones)
  then show ?thesis
    by (simp add: generateICS_lines icsEventLines_length)
qed

lemma concat_concat_map: "concat (concat (map f xs)) = concat (map (\<lambda>x. concat (f x)) xs)"
  by (induction xs) simp_all

lemma icsEventLines_enumerate:
  "concat (icsEventLines pf stamp trp) =
     concat (map (\<lambda>(i, day). concat (map (\<lambda>(j, activity).
        eventLines pf activity day (t_city trp) stamp (i * 100 + j))
        (enumerate 0 (td_activities day)))) (enumerate 0 (t_days trp)))"
  unfolding icsEventLines_def mapIndexed_def concat_concat_map
  by (simp add: case_prod_unfold)

lemma eventEnd_eq:
  "eventEnd pf activity day =
     (case eventStart pf activity day of
        None \<Rightarrow> None
      | Some t \<Rightarrow>
          if abs (t + (case ta_duration_min activity of None \<Rightarrow> 90 | Some d \<Rightarrow> d) * 60000)
               \<le> 8640000000000000
          then Some (t + (case ta_duration_min activity of None \<Rightarrow> 90 | Some d \<Rightarrow> d) * 60000)
          else None)"
  by (simp add: eventEnd_def eventDuration_def DEFAULT_DURATION_MIN_def timeClip_def maxTime_def
        mult.commute split: option.splits)

lemma eventLines_escaped:
  "eventLines pf activity day cty stamp index =
     [''BEGIN:VEVENT'',
      ''UID:'' @ stamp @ ''-'' @ natToString index @ ''@wandergenie'',
      ''DTSTAMP:'' @ stamp,
      ''DTSTART:'' @ formatICSDate (eventStart pf activity day),
      ''DTEND:'' @ formatICSDate (eventEnd pf activity day),
      ''SUMMARY:'' @ escaped (ta_name activity),
      ''LOCATION:'' @ escaped (ta_name activity @ '', '' @ cty),
      ''DESCRIPTION:'' @ escaped (join '' | '' (descriptionParts activity))] @
     (case ta_booking_url activity of
        None \<Rightarrow> []
      | Some u \<Rightarrow> if u = [] then [] else [''URL:'' @ escaped u]) @
     [''END:VEVENT'']"
  unfolding escaped_def by (rule eventLines_eq)

lemma eventLines_count_end:
  "count_list (eventLines pf activity day cty stamp index) ''END:VEVENT'' = 1"
  by (simp add: eventLines_eq split: option.splits)

text \<open>
  C9. The output of \<open>generateICS\<close>, read line by line, is the four lines of the calendar
  header, then for every day in order and every activity of the day in order the lines of
  one event, from \<open>BEGIN:VEVENT\<close> to \<open>END:VEVENT\<close>, then \<open>END:VCALENDAR\<close>; so it has
  one \<open>BEGIN:VEVENT\<close> line per activity. \<open>DTSTART\<close> is the start of the event and
  \<open>DTEND\<close> its end, and the end is the start plus \<open>duration_min\<close> minutes, or plus 90
  minutes when \<open>duration_min\<close> is absent, as long as the start is a valid date and the
  sum lies within \<open>8.64e15\<close> milliseconds of the epoch, the range of a \<open>Date\<close>;
  otherwise the end is an Invalid Date, which \<open>DTEND\<close> shows as \<open>NaN\<close> fields. The texts
  of \<open>SUMMARY\<close>, \<open>LOCATION\<close> and \<open>DESCRIPTION\<close> (and of \<open>URL\<close>) are escaped: a
  backslash before every backslash, comma and semicolon, and backslash \<open>n\<close> for every
  newline, which is what \<open>sanitize\<close> does.
\<close>

theorem generateICS_one_event_per_activity:
  "split newline (generateICS pf now trp) =
     [''BEGIN:VCALENDAR'', ''VERSION:2.0'', ''PRODID:-//WanderGenie//Trip Export//EN'',
      ''CALSCALE:GREGORIAN''] @
     concat (map (\<lambda>(i, day). concat (map (\<lambda>(j, activity).
        [''BEGIN:VEVENT'',
         ''UID:'' @ formatICSDate (Some now) @ ''-'' @ natToString (i * 100 + j) @ ''@wandergenie'',
         ''DTSTAMP:'' @ formatICSDate (Some now),
         ''DTSTART:'' @ formatICSDate (eventStart pf activity day),
         ''DTEND:'' @ formatICSDate
           (case eventStart pf activity day of
              None \<Rightarrow> None
            | Some t \<Rightarrow>
                if abs (t + (case ta_duration_min activity of None \<Rightarrow> 90 | Some d \<Rightarrow> d) * 60000)
                     \<le> 8640000000000000
                then Some (t + (case ta_duration_min activity of None \<Rightarrow> 90 | Some d \<Rightarrow> d) * 60000)
                else None),
         ''SUMMARY:'' @ escaped (ta_name activity),
         ''LOCATION:'' @ escaped (ta_name activity @ '', '' @ t_city trp),
         ''DESCRIPTION:'' @ escaped (join '' | '' (descriptionParts activity))] @
        (case ta_booking_url activity of
           None \<Rightarrow> []
         | Some u \<Rightarrow> if u = [] then [] else [''URL:'' @ escaped u]) @
        [''END:VEVENT''])
        (enumerate 0 (td_activities day)))) (enumerate 0 (t_days trp))) @
     [''END:VCALENDAR''] \<and>
   count_list (split newline (generateICS pf now trp)) ''BEGIN:VEVENT'' =
     sum_list (map (\<lambda>day. length (td_activities day)) (t_days trp)) \<and>
   eventEnd pf activity day =
     (case eventStart pf activity day of
        None \<Rightarrow> None
      | Some t \<Rightarrow>
          if abs (t + (case ta_duration_min activity of None \<Rightarrow> 90 | Some d \<Rightarrow> d) * 60000)
               \<le> 8640000000000000
          then Some (t + (case ta_duration_min activity of None \<Rightarrow> 90 | Some d \<Rightarrow> d) * 60000)
          else None) \<and>
   sanitize (Some s) = escaped s"
proof (intro conjI)
  show "split newline (generateICS pf now trp) =
     [''BEGIN:VCALENDAR'', ''VERSION:2.0'', ''PRODID:-//WanderGenie//Trip Export//EN'',
      ''CALSCALE:GREGORIAN''] @
     concat (map (\<lambda>(i, day). concat (map (\<lambda>(j, activity).
        [''BEGIN:VEVENT'',
         ''UID:'' @ formatICSDate (Some now) @ ''-'' @ natToString (i * 100 + j) @ ''@wandergenie'',
         ''DTSTAMP:'' @ formatICSDate (Some now),
         ''DTSTART:'' @ formatICSDate (eventStart pf activity day),
         ''DTEND:'' @ formatICSDate
           (case eventStart pf activity day of
              None \<Rightarrow> None
            | Some t \<Rightarrow>
                if abs (t + (case ta_duration_min activity of None \<Rightarrow> 90 | Some d \<Rightarrow> d) * 60000)
                     \<le> 8640000000000000
                then Some (t + (case ta_duration_min activity of None \<Rightarrow> 90 | Some d \<Rightarrow> d) * 60000)
                else None),
         ''SUMMARY:'' @ escaped (ta_name activity),
         ''LOCATION:'' @ escaped (ta_name activity @ '', '' @ t_city trp),
         ''DESCRIPTION:'' @ escaped (join '' | '' (descriptionParts activity))] @
        (case ta_booking_url activity of
           None \<Rightarrow> []
         | Some u \<Rightarrow> if u = [] then [] else [''URL:'' @ escaped u]) @
        [''END:VEVENT''])
        (enumerate 0 (td_activities day)))) (enumerate 0 (t_days trp))) @
     [''END:VCALENDAR'']"
    unfolding generateICS_lines icsEventLines_enumerate eventLines_escaped eventEnd_eq ..
  show "count_list (split newline (generateICS pf now trp)) ''BEGIN:VEVENT'' =
     sum_list (map (\<lambda>day. length (td_activities day)) (t_days trp))"
    by (rule generateICS_count_vevents)
  show "eventEnd pf activity day =
     (case eventStart pf activity day of
        None \<Rightarrow> None
      | Some t \<Rightarrow>
          if abs (t + (case ta_duration_min activity of None \<Rightarrow> 90 | Some d \<Rightarrow> d) * 60000)
               \<le> 8640000000000000
          then Some (t + (case ta_duration_min activity of None \<Rightarrow> 90 | Some d \<Rightarrow> d) * 60000)
          else None)"
    by (rule eventEnd_eq)
  show "sanitize (Some s) = escaped s"
    unfolding escaped_def by (rule sanitize_escape)
qed

theorem generateICS_one_event_per_activity_witness:
  "split newline
     (generateICS (fixedZone (-300)) 1766188800000
        (sampleExportTrip
           [\<lparr>td_date = ''2025-12-20'',
             td_activities = [sampleActivity ''09:00'' ''Met, 5th Ave'' (Some 120),
                              sampleActivity ''14:00'' ''MoMA'' None]\<rparr>,
            \<lparr>td_date = ''2025-12-21'',
             td_activities = [sampleActivity ''10:30'' ''High Line'' None]\<rparr>])) =
     [''BEGIN:VCALENDAR'', ''VERSION:2.0'', ''PRODID:-//WanderGenie//Trip Export//EN'',
      ''CALSCALE:GREGORIAN'',
      ''BEGIN:VEVENT'', ''UID:20251220T000000Z-0@wandergenie'', ''DTSTAMP:20251220T000000Z'',
      ''DTSTART:20251220T140000Z'', ''DTEND:20251220T160000Z'',
      ''SUMMARY:Met'' @ [backslash] @ '', 5th Ave'',
      ''LOCATION:Met'' @ [backslash] @ '', 5th Ave'' @ [backslash] @ '', NYC'',
      ''DESCRIPTION:Type: attraction'', ''END:VEVENT'',
      ''BEGIN:VEVENT'', ''UID:20251220T000000Z-1@wandergenie'', ''DTSTAMP:20251220T000000Z'',
      ''DTSTART:20251220T190000Z'', ''DTEND:20251220T203000Z'',
      ''SUMMARY:MoMA'', ''LOCATION:MoMA'' @ [backslash] @ '', NYC'',
      ''DESCRIPTION:Type: attraction'', ''END:VEVENT'',
      ''BEGIN:VEVENT'', ''UID:20251220T000000Z-100@wandergenie'', ''DTSTAMP:20251220T000000Z'',
      ''DTSTART:20251221T153000Z'', ''DTEND:20251221T170000Z'',
      ''SUMMARY:High Line'', ''LOCATION:High Line'' @ [backslash] @ '', NYC'',
      ''DESCRIPTION:Type: attraction'', ''END:VEVENT'',
      ''END:VCALENDAR''] \<and>
   eventStart (fixedZone (-300)) (sampleActivity ''09:00'' ''Met, 5th Ave'' (Some 120))
     \<lparr>td_date = ''2025-12-20'', td_activities = []\<rparr> = Some 1766239200000 \<and>
   eventEnd (fixedZone (-300)) (sampleActivity ''09:00'' ''Met, 5th Ave'' (Some 120))
     \<lparr>td_date = ''2025-12-20'', td_activities = []\<rparr> = Some 1766246400000 \<and>
   eventEnd (fixedZone (-300)) (sampleActivity ''14:00'' ''MoMA'' None)
     \<lparr>td_date = ''2025-12-20'', td_activities = []\<rparr> = Some 1766262600000"
proof -
  let ?P = "fixedZone (-300)"
  let ?d = "\<lparr>td_date = ''2025-12-20'', td_activities = []\<rparr>"
  let ?a = "sampleActivity ''09:00'' ''Met, 5th Ave'' (Some 120)"
  let ?b = "sampleActivity ''14:00'' ''MoMA'' None"
  let ?T = "sampleExportTrip
           [\<lparr>td_date = ''2025-12-20'',
             td_activities = [sampleActivity ''09:00'' ''Met, 5th Ave'' (Some 120),
                              sampleActivity ''14:00'' ''MoMA'' None]\<rparr>,
            \<lparr>td_date = ''2025-12-21'',
             td_activities = [sampleActivity ''10:30'' ''High Line'' None]\<rparr>]"
  have sa: "eventStart ?P ?a ?d = Some 1766239200000" by code_simp
  have sb: "eventStart ?P ?b ?d = Some 1766257200000" by code_simp
  have da: "ta_duration_min ?a = Some 120" and db: "ta_duration_min ?b = None"
    by (simp_all add: sampleActivity_def)
  have lines: "split newline (generateICS ?P 1766188800000 ?T) =
     [''BEGIN:VCALENDAR'', ''VERSION:2.0'', ''PRODID:-//WanderGenie//Trip Export//EN'',
      ''CALSCALE:GREGORIAN'',
      ''BEGIN:VEVENT'', ''UID:20251220T000000Z-0@wandergenie'', ''DTSTAMP:20251220T000000Z'',
      ''DTSTART:20251220T140000Z'', ''DTEND:20251220T160000Z'',
      ''SUMMARY:Met'' @ [backslash] @ '', 5th Ave'',
      ''LOCATION:Met'' @ [backslash] @ '', 5th Ave'' @ [backslash] @ '', NYC'',
      ''DESCRIPTION:Type: attraction'', ''END:VEVENT'',
      ''BEGIN:VEVENT'', ''UID:20251220T000000Z-1@wandergenie'', ''DTSTAMP:20251220T000000Z'',
      ''DTSTART:20251220T190000Z'', ''DTEND:20251220T203000Z'',
      ''SUMMARY:MoMA'', ''LOCATION:MoMA'' @ [backslash] @ '', NYC'',
      ''DESCRIPTION:Type: attraction'', ''END:VEVENT'',
      ''BEGIN:VEVENT'', ''UID:20251220T000000Z-100@wandergenie'', ''DTSTAMP:20251220T000000Z'',
      ''DTSTART:20251221T153000Z'', ''DTEND:20251221T170000Z'',
      ''SUMMARY:High Line'', ''LOCATION:High Line'' @ [backslash] @ '', NYC'',
      ''DESCRIPTION:Type: attraction'', ''END:VEVENT'',
      ''END:VCALENDAR'']"
    by (rule trans [OF generateICS_one_event_per_activity [THEN conjunct1]]) code_simp
  have ea: "eventEnd ?P ?a ?d = Some 1766246400000"
    using generateICS_one_event_per_activity [of ?P _ _ ?a ?d, THEN conjunct2, THEN conjunct2,
        THEN conjunct1]
    by (simp add: sa da)
  have eb: "eventEnd ?P ?b ?d = Some 1766262600000"
    using generateICS_one_event_per_activity [of ?P _ _ ?b ?d, THEN conjunct2, THEN conjunct2,
        THEN conjunct1]
    by (simp add: sb db)
  from lines sa ea eb show ?thesis by (intro conjI)
qed

text \<open>
  An activity at 09:00 on 2025-12-20, five hours west of UTC, with \<open>duration_min\<close> of
  \<open>10^12\<close>: the start is a valid date, the sum is out of the range of a \<open>Date\<close>, and
  \<open>DTEND\<close> is not the start plus the duration but the fields of an Invalid Date.
\<close>

theorem generateICS_end_out_of_range:
  "ta_duration_min (sampleActivity ''09:00'' ''Met'' (Some 1000000000000)) = Some 1000000000000 \<and>
   eventStart (fixedZone (-300)) (sampleActivity ''09:00'' ''Met'' (Some 1000000000000))
     \<lparr>td_date = ''2025-12-20'', td_activities = []\<rparr> = Some 1766239200000 \<and>
   eventEnd (fixedZone (-300)) (sampleActivity ''09:00'' ''Met'' (Some 1000000000000))
     \<lparr>td_date = ''2025-12-20'', td_activities = []\<rparr> \<noteq>
     Some (1766239200000 + 1000000000000 * 60000) \<and>
   split newline
     (generateICS (fixedZone (-300)) 1766188800000
        (sampleExportTrip
           [\<lparr>td_date = ''2025-12-20'',
             td_activities = [sampleActivity ''09:00'' ''Met'' (Some 1000000000000)]\<rparr>])) =
     [''BEGIN:VCALENDAR'', ''VERSION:2.0'', ''PRODID:-//WanderGenie//Trip Export//EN'',
      ''CALSCALE:GREGORIAN'',
      ''BEGIN:VEVENT'', ''UID:20251220T000000Z-0@wandergenie'', ''DTSTAMP:20251220T000000Z'',
      ''DTSTART:20251220T140000Z'', ''DTEND:NaNNaNNaNTNaNNaNNaNZ'',
      ''SUMMARY:Met'', ''LOCATION:Met'' @ [backslash] @ '', NYC'',
      ''DESCRIPTION:Type: attraction'', ''END:VEVENT'',
      ''END:VCALENDAR'']"
proof (intro conjI)
  show "ta_duration_min (sampleActivity ''09:00'' ''Met'' (Some 1000000000000)) = Some 1000000000000"
    by (simp add: sampleActivity_def)
  show "eventStart (fixedZone (-300)) (sampleActivity ''09:00'' ''Met'' (Some 1000000000000))
     \<lparr>td_date = ''2025-12-20'', td_activities = []\<rparr> = Some 1766239200000"
    by code_simp
  have "eventEnd (fixedZone (-300)) (sampleActivity ''09:00'' ''Met'' (Some 1000000000000))
     \<lparr>td_date = ''2025-12-20'', td_activities = []\<rparr> = None"
    by code_simp
  then show "eventEnd (fixedZone (-300)) (sampleActivity ''09:00'' ''Met'' (Some 1000000000000))
     \<lparr>td_date = ''2025-12-20'', td_activities = []\<rparr> \<noteq>
     Some (1766239200000 + 1000000000000 * 60000)"
    by simp
  show "split newline
     (generateICS (fixedZone (-300)) 1766188800000
        (sampleExportTrip
           [\<lparr>td_date = ''2025-12-20'',
             td_activities = [sampleActivity ''09:00'' ''Met'' (Some 1000000000000)]\<rparr>])) =
     [''BEGIN:VCALENDAR'', ''VERSION:2.0'', ''PRODID:-//WanderGenie//Trip Export//EN'',
      ''CALSCALE:GREGORIAN'',
      ''BEGIN:VEVENT'', ''UID:20251220T000000Z-0@wandergenie'', ''DTSTAMP:20251220T000000Z'',
      ''DTSTART:20251220T140000Z'', ''DTEND:NaNNaNNaNTNaNNaNNaNZ'',
      ''SUMMARY:Met'', ''LOCATION:Met'' @ [backslash] @ '', NYC'',
      ''DESCRIPTION:Type: attraction'', ''END:VEVENT'',
      ''END:VCALENDAR'']"
    by code_simp
qed

section \<open>The booking links: properties\<close>

lemma buildHotelsLink_verbatim:
  "t_booking_links trp = Some links \<Longrightarrow> tl_hotels links = Some h \<Longrightarrow>
   url (buildHotelsLink pf numberToString trp) = h"
  by (simp add: buildHotelsLink_def)

lemma buildHotelsLink_generated:
  "t_booking_links trp = None \<or> (\<exists>links. t_booking_links trp = Some links \<and> tl_hotels links = None) \<Longrightarrow>
   url (buildHotelsLink pf numberToString trp) =
     ''https://www.booking.com/searchresults.html?'' @ params_toString (hotelsParams pf numberToString trp)"
  by (auto simp add: buildHotelsLink_def hotelsGeneratedUrl_def)

lemma hotelsParams_dates:
  "params_get ''checkin'' (hotelsParams pf numberToString trp)
     = Some (formatIsoDate pf (newDate pf (t_start_date trp))) \<and>
   params_get ''checkout'' (hotelsParams pf numberToString trp)
     = Some (formatIsoDate pf (newDate pf (case t_end_date trp of None \<Rightarrow> t_start_date trp | Some e \<Rightarrow> e)))"
  by (simp add: hotelsParams_def Let_def params_set_def params_get_def getStartDate_def
        getEndDate_def split: option.splits prod.splits)

lemma hotelsParams_checkout_fallback:
  "t_end_date trp = None \<Longrightarrow>
   params_get ''checkout'' (hotelsParams pf numberToString trp)
     = params_get ''checkin'' (hotelsParams pf numberToString trp)"
  by (simp add: hotelsParams_dates)

lemma formatIsoDate_offset:
  "pf_offset pf = pf_offset pf' \<Longrightarrow> formatIsoDate pf dt = formatIsoDate pf' dt"
  by (cases dt) (simp_all add: formatIsoDate_def)

lemma newDate_iso_offset:
  "isoTime (pf_offset pf) s = Some t \<Longrightarrow> pf_offset pf' = pf_offset pf \<Longrightarrow>
   newDate pf' s = newDate pf s"
  by (simp add: newDate_def)

text \<open>
  C10. In a time zone west of Greenwich the generated link does not carry the dates of the
  trip. For the trip from 2025-12-20 to 2025-12-25 without booking links, on any platform
  five hours west of UTC: \<open>new Date\<close> reads the date-only text as UTC midnight,
  \<open>formatIsoDate\<close> reads the local day, which is the day before, and the link asks for
  2025-12-19 to 2025-12-24. At the offset 0 the link carries the dates of the trip.
\<close>

theorem buildHotelsLink_dates_shift_west_of_UTC:
  "t_start_date (sampleExportTrip []) = ''2025-12-20'' \<and>
   t_end_date (sampleExportTrip []) = Some ''2025-12-25'' \<and>
   t_booking_links (sampleExportTrip []) = None \<and>
   params_get ''checkin'' (hotelsParams (pf\<lparr>pf_offset := - 300\<rparr>) (\<lambda>x. []) (sampleExportTrip []))
     = Some ''2025-12-19'' \<and>
   params_get ''checkout'' (hotelsParams (pf\<lparr>pf_offset := - 300\<rparr>) (\<lambda>x. []) (sampleExportTrip []))
     = Some ''2025-12-24'' \<and>
   url (buildHotelsLink (pf\<lparr>pf_offset := - 300\<rparr>) (\<lambda>x. []) (sampleExportTrip [])) =
     ''https://www.booking.com/searchresults.html?ss=NYC+near+city+center&checkin=2025-12-19&checkout=2025-12-24&group_adults=2&no_rooms=1&group_children=0'' \<and>
   params_get ''checkin'' (hotelsParams (pf\<lparr>pf_offset := 0\<rparr>) (\<lambda>x. []) (sampleExportTrip []))
     = Some ''2025-12-20'' \<and>
   params_get ''checkout'' (hotelsParams (pf\<lparr>pf_offset := 0\<rparr>) (\<lambda>x. []) (sampleExportTrip []))
     = Some ''2025-12-25''"
proof -
  let ?W = "pf\<lparr>pf_offset := - 300\<rparr>" and ?U = "pf\<lparr>pf_offset := 0\<rparr>"
  have i1: "isoTime (pf_offset (fixedZone (- 300))) ''2025-12-20'' = Some 1766188800000" by code_simp
  have i2: "isoTime (pf_offset (fixedZone (- 300))) ''2025-12-25'' = Some 1766620800000" by code_simp
  have i3: "isoTime (pf_offset (fixedZone 0)) ''2025-12-20'' = Some 1766188800000" by code_simp
  have i4: "isoTime (pf_offset (fixedZone 0)) ''2025-12-25'' = Some 1766620800000" by code_simp
  have ow: "pf_offset ?W = pf_offset (fixedZone (- 300))" and ou: "pf_offset ?U = pf_offset (fixedZone 0)"
    by (simp_all add: fixedZone_def)
  have c1: "formatIsoDate (fixedZone (- 300)) (newDate (fixedZone (- 300)) ''2025-12-20'') = ''2025-12-19''"
    by code_simp
  have c2: "formatIsoDate (fixedZone (- 300)) (newDate (fixedZone (- 300)) ''2025-12-25'') = ''2025-12-24''"
    by code_simp
  have c3: "formatIsoDate (fixedZone 0) (newDate (fixedZone 0) ''2025-12-20'') = ''2025-12-20''"
    by code_simp
  have c4: "formatIsoDate (fixedZone 0) (newDate (fixedZone 0) ''2025-12-25'') = ''2025-12-25''"
    by code_simp
  have d1: "formatIsoDate ?W (newDate ?W ''2025-12-20'') = ''2025-12-19''"
    unfolding newDate_iso_offset [OF i1 ow] formatIsoDate_offset [OF ow] by (rule c1)
  have d2: "formatIsoDate ?W (newDate ?W ''2025-12-25'') = ''2025-12-24''"
    unfolding newDate_iso_offset [OF i2 ow] formatIsoDate_offset [OF ow] by (rule c2)
  have d3: "formatIsoDate ?U (newDate ?U ''2025-12-20'') = ''2025-12-20''"
    unfolding newDate_iso_offset [OF i3 ou] formatIsoDate_offset [OF ou] by (rule c3)
  have d4: "formatIsoDate ?U (newDate ?U ''2025-12-25'') = ''2025-12-25''"
    unfolding newDate_iso_offset [OF i4 ou] formatIsoDate_offset [OF ou] by (rule c4)
  have f: "t_start_date (sampleExportTrip []) = ''2025-12-20''"
    "t_end_date (sampleExportTrip []) = Some ''2025-12-25''"
    "t_booking_links (sampleExportTrip []) = None"
    "t_days (sampleExportTrip []) = []" "t_city (sampleExportTrip []) = ''NYC''"
    by (simp_all add: sampleExportTrip_def)
  have p: "hotelsParams ?W (\<lambda>x. []) (sampleExportTrip []) =
      [(''ss'', ''NYC near city center''), (''checkin'', ''2025-12-19''),
       (''checkout'', ''2025-12-24''), (''group_adults'', ''2''), (''no_rooms'', ''1''),
       (''group_children'', ''0'')]"
    by (simp add: hotelsParams_def getPrimaryPOI_def getAllActivities_def anchorCoordinates_def
          getStartDate_def getEndDate_def f d1 d2)
  have u: "params_toString
      [(''ss'', ''NYC near city center''), (''checkin'', ''2025-12-19''),
       (''checkout'', ''2025-12-24''), (''group_adults'', ''2''), (''no_rooms'', ''1''),
       (''group_children'', ''0'')] =
      ''ss=NYC+near+city+center&checkin=2025-12-19&checkout=2025-12-24&group_adults=2&no_rooms=1&group_children=0''"
    by code_simp
  show ?thesis
    using hotelsParams_dates [of ?W "\<lambda>x. []" "sampleExportTrip []"]
      hotelsParams_dates [of ?U "\<lambda>x. []" "sampleExportTrip []"]
    by (simp add: f d1 d2 d3 d4 buildHotelsLink_def hotelsGeneratedUrl_def p u)
qed

section \<open>The itinerary engine: properties\<close>

subsection \<open>The checks\<close>

lemma failing_Nil_iff: "failing passes xs = [] \<longleftrightarrow> (\<forall>x\<in>set xs. passes x)"
proof -
  have "failing passes xs = [] \<longleftrightarrow> (\<forall>q\<in>set (enumerate 0 xs). passes (snd q))"
    by (auto simp add: failing_def filter_empty_conv)
  also have "\<dots> \<longleftrightarrow> (\<forall>x\<in>snd ` set (enumerate 0 xs). passes x)"
    by blast
  also have "snd ` set (enumerate 0 xs) = set xs"
    by (metis map_snd_enumerate set_map)
  finally show ?thesis .
qed

lemma leadOk_status: "leadOk E (trp\<lparr>st_status := s\<rparr>) = leadOk E trp"
  by (intro ext) (simp add: leadOk_def)

lemma leadOk_errors: "leadOk E (trp\<lparr>st_validation_errors := es\<rparr>) = leadOk E trp"
  by (intro ext) (simp add: leadOk_def)

lemma violations_status [simp]:
  "violations E (trp\<lparr>st_status := s\<rparr>) = violations E trp"
  by (simp add: violations_def leadOk_status)

lemma violations_errors [simp]:
  "violations E (trp\<lparr>st_validation_errors := es\<rparr>) = violations E trp"
  by (simp add: violations_def leadOk_errors)



subsection \<open>The validator\<close>

lemma validate_valid:
  "violations E trp = [] \<Longrightarrow> validate E trp = (trp\<lparr>st_status := Completed\<rparr>, [])"
  by (simp add: validate_def)

lemma validate_patched:
  assumes "violations E trp \<noteq> []"
    and "patchAll (violations E trp) trp [] [] = (trp', fixed, reasons)"
  shows "validate E trp =
     (if reasons = [] \<and> violations E trp' = []
      then (trp'\<lparr>st_status := Completed,
                 st_validation_errors := st_validation_errors trp @ map patchNote fixed\<rparr>, fixed)
      else (trp'\<lparr>st_status := Failed,
                 st_validation_errors :=
                   st_validation_errors trp @ map patchNote fixed @ reasons @
                   map (\<lambda>v. ''unresolved violation'') (violations E trp')\<rparr>, fixed))"
  using assms by (simp add: validate_def Let_def)

lemma validate_completed_clean:
  assumes "st_status (fst (validate E trp)) = Completed"
  shows "violations E (fst (validate E trp)) = []"
proof (cases "violations E trp = []")
  case True
  then show ?thesis by (simp add: validate_valid)
next
  case False
  obtain trp' fixed reasons where p: "patchAll (violations E trp) trp [] [] = (trp', fixed, reasons)"
    by (cases "patchAll (violations E trp) trp [] []") auto
  show ?thesis
  proof (cases "reasons = [] \<and> violations E trp' = []")
    case True
    with validate_patched [OF False p] show ?thesis by simp
  next
    case False
    with validate_patched [OF \<open>violations E trp \<noteq> []\<close> p] assms show ?thesis
      by auto
  qed
qed

lemma validate_status:
  "st_status (fst (validate E trp)) = Completed \<or> st_status (fst (validate E trp)) = Failed"
proof (cases "violations E trp = []")
  case True
  then show ?thesis by (simp add: validate_valid)
next
  case False
  obtain trp' fixed reasons where p: "patchAll (violations E trp) trp [] [] = (trp', fixed, reasons)"
    by (cases "patchAll (violations E trp) trp [] []") auto
  from validate_patched [OF False p] show ?thesis by simp
qed

lemma validate_failed_recorded:
  assumes "st_status (fst (validate E trp)) = Failed"
  shows "st_validation_errors (fst (validate E trp)) \<noteq> []"
proof (cases "violations E trp = []")
  case True
  with assms show ?thesis by (simp add: validate_valid)
next
  case False
  obtain trp' fixed reasons where p: "patchAll (violations E trp) trp [] [] = (trp', fixed, reasons)"
    by (cases "patchAll (violations E trp) trp [] []") auto
  show ?thesis
  proof (cases "reasons = [] \<and> violations E trp' = []")
    case True
    with validate_patched [OF False p] assms show ?thesis by simp
  next
    case False
    with validate_patched [OF \<open>violations E trp \<noteq> []\<close> p] show ?thesis
      by auto
  qed
qed

subsection \<open>Patches keep the days and their dates\<close>






subsection \<open>The scheduler\<close>


lemma dayLoop_first:
  "fst (dayLoop E wd windowEnd dayIndex pool budget cursor used prev) = b # rest \<Longrightarrow>
   cursor + sb_travel b \<le> sb_start b"
  by (cases budget) (auto simp add: Let_def split: option.splits prod.splits)

lemma dayLoop_nonOverlapping:
  "nonOverlapping (fst (dayLoop E wd windowEnd dayIndex pool budget cursor used prev))"
proof (induction budget arbitrary: cursor used prev)
  case 0
  then show ?case by simp
next
  case (Suc budget)
  let ?unused = "filter (\<lambda>p. poi_id p \<notin> set used) pool"
  show ?case
  proof (cases "pickBest (score E prev ?unused) (filter (fitsAt E wd windowEnd cursor prev) ?unused)")
    case None
    then show ?thesis by (simp add: Let_def)
  next
    case (Some p)
    define fin where "fin = cursor + en_travel E prev p + durationOf E p"
    define r where "r = dayLoop E wd windowEnd dayIndex pool budget (fin + en_gap E)
                          (poi_id p # used) (Some p)"
    define blk where "blk = \<lparr>sb_day = dayIndex, sb_start = cursor + en_travel E prev p,
                         sb_end = fin, sb_poi = p, sb_travel = en_travel E prev p,
                         sb_note = (if hoursOn p wd = Unknown then Some ''opening hours unknown''
                                    else None)\<rparr>"
    have u: "fst (dayLoop E wd windowEnd dayIndex pool (Suc budget) cursor used prev) = blk # fst r"
      using Some unfolding r_def blk_def fin_def
      by (simp add: Let_def split: prod.splits)
    have ih: "nonOverlapping (fst r)" unfolding r_def by (rule Suc.IH)
    show ?thesis
    proof (cases "fst r")
      case Nil
      with u show ?thesis by simp
    next
      case (Cons b rest)
      from dayLoop_first [OF Cons [unfolded r_def]] have "fin + en_gap E + sb_travel b \<le> sb_start b" .
      then have "sb_end blk + sb_travel b \<le> sb_start b" by (simp add: blk_def)
      with ih Cons u show ?thesis by simp
    qed
  qed
qed

lemma scheduleDays_nonOverlapping:
  "d \<in> set (scheduleDays E c pool dayIndex dts used) \<Longrightarrow> nonOverlapping (sd_blocks d)"
proof (induction dts arbitrary: dayIndex used)
  case Nil
  then show ?case by simp
next
  case (Cons dt dts)
  obtain ws we where w: "en_window E (c_pace c) = (ws, we)" by (cases "en_window E (c_pace c)") auto
  obtain bs used' where l: "dayLoop E (en_weekday E dt) we dayIndex pool (dayBudget E c) ws used None
                              = (bs, used')"
    by (cases "dayLoop E (en_weekday E dt) we dayIndex pool (dayBudget E c) ws used None") auto
  from Cons.prems w l have "d = \<lparr>sd_date = dt, sd_blocks = bs\<rparr> \<or>
      d \<in> set (scheduleDays E c pool (Suc dayIndex) dts used')" by (simp add: Let_def)
  then show ?case
  proof
    assume "d = \<lparr>sd_date = dt, sd_blocks = bs\<rparr>"
    moreover have "nonOverlapping bs"
      using dayLoop_nonOverlapping [of E "en_weekday E dt" we dayIndex pool "dayBudget E c" ws used None] l
      by simp
    ultimately show ?thesis by simp
  next
    assume "d \<in> set (scheduleDays E c pool (Suc dayIndex) dts used')"
    then show ?thesis by (rule Cons.IH)
  qed
qed

lemma create_Inr:
  "create E tid cty c pool = Inr trp \<Longrightarrow>
   c_start_date c \<le> c_end_date c \<and>
   trp = fst (validate E
     \<lparr>st_id = tid, st_status = Processing, st_city = cty, st_constraints = c,
      st_days = scheduleDays E c pool 0 [c_start_date c..c_end_date c] [],
      st_validation_errors =
        emptyDayNotes (scheduleDays E c pool 0 [c_start_date c..c_end_date c] [])\<rparr>)"
  by (auto simp add: create_def Let_def split: if_splits)


lemma raw_schedule_valid_overlap:
  "failing (\<lambda>d. nonOverlapping (sd_blocks d)) (scheduleDays E c pool dayIndex dts used) = []"
  by (simp add: failing_Nil_iff scheduleDays_nonOverlapping)

subsection \<open>Blocks of a minimum length\<close>














subsection \<open>The claims on the engine\<close>



text \<open>
  C6. On a trip that has no violation the validator performs no patch and changes
  nothing but the status, which it sets to completed; a trip that is already completed
  comes back as it is. Every trip the validator reports completed has no violation, so
  validating it again performs no patch and returns it unchanged.
\<close>

theorem validate_idempotent_on_valid:
  "(violations E trp = [] \<longrightarrow> validate E trp = (trp\<lparr>st_status := Completed\<rparr>, [])) \<and>
   (violations E trp = [] \<and> st_status trp = Completed \<longrightarrow> validate E trp = (trp, [])) \<and>
   (st_status (fst (validate E trp)) = Completed \<longrightarrow>
      violations E (fst (validate E trp)) = [] \<and>
      validate E (fst (validate E trp)) = (fst (validate E trp), []))"
proof (intro conjI impI)
  assume "violations E trp = []"
  then show "validate E trp = (trp\<lparr>st_status := Completed\<rparr>, [])" by (rule validate_valid)
next
  assume "violations E trp = [] \<and> st_status trp = Completed"
  then have "validate E trp = (trp\<lparr>st_status := Completed\<rparr>, [])" and "st_status trp = Completed"
    by (simp_all add: validate_valid)
  moreover have "trp\<lparr>st_status := st_status trp\<rparr> = trp" by simp
  ultimately show "validate E trp = (trp, [])" by simp
next
  assume a: "st_status (fst (validate E trp)) = Completed"
  then show v: "violations E (fst (validate E trp)) = []" by (rule validate_completed_clean)
  have "(fst (validate E trp))\<lparr>st_status := st_status (fst (validate E trp))\<rparr> = fst (validate E trp)"
    by simp
  with a have "(fst (validate E trp))\<lparr>st_status := Completed\<rparr> = fst (validate E trp)" by simp
  with validate_valid [OF v] show "validate E (fst (validate E trp)) = (fst (validate E trp), [])"
    by simp
qed

text \<open>
  C1. Every trip that \<open>create\<close> delivers has the status completed or failed, never
  processing, and carries the list \<open>validation_errors\<close>, which is not empty when the trip
  failed. In the client, whatever the responses to the polls, a trip that
  \<open>pollTripUntilComplete\<close> returns has the status \<open>completed\<close>, and \<open>createTrip\<close> resolves
  on an ok response with the body the server sent, its status string included.
\<close>

theorem created_trip_completed_or_failed:
  "(\<forall>trp. create E tid cty c pool = Inr trp \<longrightarrow>
      (st_status trp = Completed \<or> st_status trp = Failed) \<and>
      (st_status trp = Failed \<longrightarrow> st_validation_errors trp \<noteq> [])) \<and>
   (\<forall>trip. fst (pollTripUntilComplete server onProgress maxAttempts intervalMs s) = Inr trip \<longrightarrow>
      status trip = ''completed'') \<and>
   (\<forall>r body. ok r \<and> json r = Inr body \<longrightarrow>
      createTrip (Resolved r) = Inr body \<and>
      map_sum id c_status (createTrip (Resolved r)) = Inr (c_status body))"
proof (intro conjI allI impI)
  fix trp
  assume a: "create E tid cty c pool = Inr trp"
  from create_Inr [OF a] obtain raw where raw: "trp = fst (validate E raw)" by blast
  show "st_status trp = Completed \<or> st_status trp = Failed"
    unfolding raw by (rule validate_status)
  assume "st_status trp = Failed"
  then show "st_validation_errors trp \<noteq> []"
    unfolding raw by (rule validate_failed_recorded)
next
  fix trip
  assume a: "fst (pollTripUntilComplete server onProgress maxAttempts intervalMs s) = Inr trip"
  from pollLoop_returns_completed [OF a [unfolded pollTripUntilComplete_def]]
  show "status trip = ''completed''" by simp
next
  fix r :: "CreateTripResponse response" and body
  assume a: "ok r \<and> json r = Inr body"
  then show c: "createTrip (Resolved r) = Inr body"
    by (simp add: createTrip_def response_json_def)
  show "map_sum id c_status (createTrip (Resolved r)) = Inr (c_status body)"
    by (simp add: c)
qed

subsection \<open>The sample trip\<close>

lemma sample_create:
  "create sampleEngine ''t1'' ''NYC'' sampleConstraints [samplePoiA, samplePoiB] = Inr sampleValidTrip"
  by code_simp

lemma sample_valid: "violations sampleEngine sampleValidTrip = []"
  by code_simp






theorem validate_idempotent_on_valid_witness:
  "violations sampleEngine sampleValidTrip = [] \<and> st_status sampleValidTrip = Completed \<and>
   validate sampleEngine sampleValidTrip = (sampleValidTrip, [])"
proof -
  have st: "st_status sampleValidTrip = Completed" by (simp add: sampleValidTrip_def)
  from validate_idempotent_on_valid [of sampleEngine sampleValidTrip, THEN conjunct2,
      THEN conjunct1, rule_format, OF conjI, OF sample_valid st]
  show ?thesis using sample_valid st by simp
qed

theorem created_trip_completed_or_failed_witness:
  "create sampleEngine ''t1'' ''NYC'' sampleConstraints [samplePoiA, samplePoiB] = Inr sampleValidTrip \<and>
   (st_status sampleValidTrip = Completed \<or> st_status sampleValidTrip = Failed) \<and>
   createTrip (respond 200 ''OK'' \<lparr>c_trip_id = ''trip_12345'', c_status = ''processing''\<rparr>)
     = Inr \<lparr>c_trip_id = ''trip_12345'', c_status = ''processing''\<rparr> \<and>
   fst (pollTripUntilComplete
          (\<lambda>k. if k < 2 then respond 200 ''OK'' (sampleTrip ''processing'' None)
               else respond 200 ''OK'' (sampleTrip ''completed'' None))
          None 60 2000 ()) = Inr (sampleTrip ''completed'' None) \<and>
   status (sampleTrip ''completed'' None) = ''completed''"
proof -
  let ?srv = "\<lambda>k::nat. if k < 2 then respond 200 ''OK'' (sampleTrip ''processing'' None)
           else respond 200 ''OK'' (sampleTrip ''completed'' None)"
  note inst = created_trip_completed_or_failed [of sampleEngine "''t1''" "''NYC''" sampleConstraints
      "[samplePoiA, samplePoiB]" ?srv None 60 2000 "()"]
  from inst [THEN conjunct1, rule_format, OF sample_create, THEN conjunct1]
  have a: "st_status sampleValidTrip = Completed \<or> st_status sampleValidTrip = Failed" .
  have p: "pending (respond 200 ''OK'' (sampleTrip ''processing'' None))"
    by (simp add: pending_def getTrip_def respond_def ok_def response_json_def sampleTrip_def)
  have r: "fst (pollTripUntilComplete ?srv None 60 2000 ()) = Inr (sampleTrip ''completed'' None)"
    using poll_completed(1) [of 2 60 ?srv "sampleTrip ''completed'' None" None 2000 "()"] p
    by (simp add: getTrip_def respond_def ok_def response_json_def sampleTrip_def)
  from inst [THEN conjunct2, THEN conjunct1, rule_format, OF r]
  have b: "status (sampleTrip ''completed'' None) = ''completed''" .
  from inst [THEN conjunct2, THEN conjunct2, rule_format,
      of "\<lparr>http_status = 200, statusText = ''OK'',
           json = Inr \<lparr>c_trip_id = ''trip_12345'', c_status = ''processing''\<rparr>\<rparr>"
         "\<lparr>c_trip_id = ''trip_12345'', c_status = ''processing''\<rparr>", THEN conjunct1]
  have c: "createTrip (respond 200 ''OK'' \<lparr>c_trip_id = ''trip_12345'', c_status = ''processing''\<rparr>)
     = Inr \<lparr>c_trip_id = ''trip_12345'', c_status = ''processing''\<rparr>"
    by (simp add: respond_def ok_def)
  from sample_create a r b c show ?thesis by blast
qed

end
